theory Spec2Isabelle
  imports Complex_Main "HOL-Library.Sublist" "HOL-Library.AList"
begin

section \<open>Funding-rate bot: a shallow embedding of \<open>bot.py\<close>\<close>

text \<open>
  The embedding covers the market-data core of \<open>bot.py\<close>: the spot-symbol cache
  (\<open>get_*_spot_symbols\<close>), the two REST collectors the aggregator calls
  (\<open>get_bybit_funding_rates\<close>, \<open>get_bitget_funding_rates\<close>), the two WebSocket monitors
  (\<open>BinanceWebSocketMonitor\<close>, \<open>OKXWebSocketMonitor\<close>), the aggregator
  \<open>get_all_funding_rates\<close>, and the ranking code (\<open>get_top_funding_rates\<close>, the selection
  loop of \<open>check_threshold_alerts\<close>).

  Conventions.
  \<^item> A Python \<open>dict\<close> whose iteration order matters is an association list in insertion
    order with distinct keys; \<open>d[k] = v\<close> is \<open>AList.update k v d\<close> (replace in place, or
    append when the key is new).
  \<^item> A Python float is the real number it denotes (finite values only, no NaN).
    Comparisons are exact on these. Where a result depends on rounding, in the countdown
    of the threshold alerts, each float operation is rounded to the nearest double; the
    product \<open>fraction * 100\<close> the collectors store as the rate is left unrounded.
  \<^item> An exception is the value \<open>None\<close> of an \<open>option\<close> result; every handler of the
    source is \<open>except Exception\<close>, so the kind of exception is never inspected.
  \<^item> The network is an input: each function receives the reply the exchange would
    give, and returns the list of effects (HTTP requests, sleeps) it really performed.
  \<^item> Strings are byte strings. The code only cuts at ASCII separators and ASCII
    suffixes, so bytes and code points agree on every cut that is made.
\<close>

subsection \<open>String helpers\<close>

text \<open>\<open>s.endswith(suf)\<close>\<close>

definition endswith :: "string \<Rightarrow> string \<Rightarrow> bool" where
  "endswith s suf \<longleftrightarrow> length suf \<le> length s \<and> drop (length s - length suf) s = suf"

text \<open>\<open>s[:-4]\<close>: all but the last four characters (the empty string when \<open>s\<close> is shorter).\<close>

definition strip4 :: "string \<Rightarrow> string" where
  "strip4 s = take (length s - 4) s"

text \<open>\<open>s.split(c)[0]\<close> for a one-character separator: the text before the first \<open>c\<close>.\<close>

definition split_first :: "char \<Rightarrow> string \<Rightarrow> string" where
  "split_first c s = takeWhile (\<lambda>x. x \<noteq> c) s"

text \<open>\<open>f"{base}/USDT:USDT"\<close>\<close>

definition ccxt_symbol :: "string \<Rightarrow> string" where
  "ccxt_symbol base = base @ ''/USDT:USDT''"

subsection \<open>Symbol derivation, per exchange\<close>

text \<open>
  Bybit tickers: \<open>if not symbol.endswith("USDT"): continue\<close>, then \<open>symbol[:-4]\<close>.
  \<open>None\<close> is the \<open>continue\<close>.
\<close>

definition bybit_symbol_key :: "string \<Rightarrow> string option" where
  "bybit_symbol_key raw =
     (if \<not> endswith raw ''USDT'' then None else Some (ccxt_symbol (strip4 raw)))"

text \<open>
  Bitget tickers: the raw symbol must end in \<open>_UMCBL\<close>, the part before the first
  underscore must end in \<open>USDT\<close>.
\<close>

definition bitget_symbol_key :: "string \<Rightarrow> string option" where
  "bitget_symbol_key raw_symbol =
     (if \<not> endswith raw_symbol ''_UMCBL'' then None
      else let pair = split_first (CHR ''_'') raw_symbol in
        if \<not> endswith pair ''USDT'' then None else Some (ccxt_symbol (strip4 pair)))"

text \<open>
  Binance stream items: \<open>sym = item.get("s")\<close>,
  \<open>if not sym or not sym.endswith("USDT"): continue\<close>.
\<close>

definition binance_symbol_key :: "string option \<Rightarrow> string option" where
  "binance_symbol_key s =
     (case s of
        None \<Rightarrow> None
      | Some raw \<Rightarrow>
          if raw = [] \<or> \<not> endswith raw ''USDT'' then None
          else Some (ccxt_symbol (strip4 raw)))"

text \<open>OKX stream items: \<open>base = inst_id.split("-")[0]\<close>, with no check of the suffix.\<close>

definition okx_symbol_key :: "string \<Rightarrow> string" where
  "okx_symbol_key inst_id = ccxt_symbol (split_first (CHR ''-'') inst_id)"

subsection \<open>Payload fields\<close>

text \<open>
  A numeric field of a JSON object as the code reads it: the key is missing, or the value
  is one that \<open>float()\<close>/\<open>int()\<close> rejects, or it converts to a number.
\<close>

datatype 'a field = Absent | Malformed | Present 'a

text \<open>\<open>float(item["k"])\<close>: \<open>KeyError\<close> or \<open>ValueError\<close> unless the value converts.\<close>

fun required :: "'a field \<Rightarrow> 'a option" where
  "required (Present v) = Some v"
| "required Absent = None"
| "required Malformed = None"

text \<open>\<open>float(item.get("k", d))\<close>: the default when the key is missing.\<close>

fun optional :: "'a \<Rightarrow> 'a field \<Rightarrow> 'a option" where
  "optional d (Present v) = Some v"
| "optional d Absent = Some d"
| "optional d Malformed = None"

text \<open>
  The reply to one HTTP GET: the request itself raised, or a status code came back
  together with the body as \<open>await resp.json()\<close> decodes it (\<open>None\<close> when decoding raises).
\<close>

datatype 'a http = ConnFailed | Http nat "'a option"

datatype effect = HttpGet string | Sleep real

subsection \<open>Data model\<close>

record funding_entry =
  symbol :: string
  rate :: real
  volume :: real
  price :: real
  next_funding :: int

type_synonym snapshot = "(string \<times> funding_entry) list"

subsection \<open>Spot-symbol cache\<close>

datatype exchange = Binance | Bybit | Bitget | OKX

record spot_cache =
  SPOT_SYMBOL_CACHE :: "exchange \<Rightarrow> string set"
  SPOT_SYMBOL_LAST_FETCH :: "exchange \<Rightarrow> real"

definition initial_spot_cache :: spot_cache where
  "initial_spot_cache =
     \<lparr>SPOT_SYMBOL_CACHE = (\<lambda>_. {}), SPOT_SYMBOL_LAST_FETCH = (\<lambda>_. 0)\<rparr>"

definition SPOT_SYMBOL_TTL :: real where
  "SPOT_SYMBOL_TTL = 60 * 60"

text \<open>Binance \<open>/api/v3/exchangeInfo\<close>: \<open>data['symbols']\<close>, no return code is looked at.\<close>

record binance_spot_item =
  bn_quoteAsset :: "string option"
  bn_status :: "string option"
  bn_baseAsset :: "string option"

record binance_spot_body =
  bn_symbols :: "binance_spot_item list option"

fun binance_spot_loop :: "binance_spot_item list \<Rightarrow> string set \<Rightarrow> string set option" where
  "binance_spot_loop [] symbols = Some symbols"
| "binance_spot_loop (s # rest) symbols =
     (case bn_quoteAsset s of
        None \<Rightarrow> None
      | Some q \<Rightarrow>
          if q \<noteq> ''USDT'' then binance_spot_loop rest symbols
          else (case bn_status s of
                  None \<Rightarrow> None
                | Some st \<Rightarrow>
                    if st \<noteq> ''TRADING'' then binance_spot_loop rest symbols
                    else (case bn_baseAsset s of
                            None \<Rightarrow> None
                          | Some b \<Rightarrow> binance_spot_loop rest (insert (ccxt_symbol b) symbols))))"

definition binance_spot_parse :: "binance_spot_body \<Rightarrow> string set option" where
  "binance_spot_parse data =
     (case bn_symbols data of None \<Rightarrow> None | Some l \<Rightarrow> binance_spot_loop l {})"

text \<open>
  Bybit \<open>/v5/market/instruments-info\<close>: the loop runs only under
  \<open>data.get("retCode") == 0\<close>; the store that follows the \<open>if\<close> is not guarded.
\<close>

record bybit_spot_item =
  bb_quoteCoin :: "string option"
  bb_baseCoin :: "string option"

record bybit_spot_body =
  bb_retCode :: "int option"
  bb_list :: "bybit_spot_item list option"

fun bybit_spot_loop :: "bybit_spot_item list \<Rightarrow> string set \<Rightarrow> string set option" where
  "bybit_spot_loop [] symbols = Some symbols"
| "bybit_spot_loop (s # rest) symbols =
     (case bb_quoteCoin s of
        None \<Rightarrow> None
      | Some q \<Rightarrow>
          if q \<noteq> ''USDT'' then bybit_spot_loop rest symbols
          else (case bb_baseCoin s of
                  None \<Rightarrow> None
                | Some b \<Rightarrow> bybit_spot_loop rest (insert (ccxt_symbol b) symbols)))"

definition bybit_spot_parse :: "bybit_spot_body \<Rightarrow> string set option" where
  "bybit_spot_parse data =
     (if bb_retCode data = Some 0
      then (case bb_list data of None \<Rightarrow> None | Some l \<Rightarrow> bybit_spot_loop l {})
      else Some {})"

text \<open>Bitget \<open>/api/v2/spot/public/symbols\<close>: \<open>data.get("code") == "00000"\<close>.\<close>

record bitget_spot_item =
  bg_quoteCoin :: "string option"
  bg_status :: "string option"
  bg_baseCoin :: "string option"

record bitget_spot_body =
  bg_code :: "string option"
  bg_data :: "bitget_spot_item list option"

fun bitget_spot_loop :: "bitget_spot_item list \<Rightarrow> string set \<Rightarrow> string set option" where
  "bitget_spot_loop [] symbols = Some symbols"
| "bitget_spot_loop (s # rest) symbols =
     (case bg_quoteCoin s of
        None \<Rightarrow> None
      | Some q \<Rightarrow>
          if q \<noteq> ''USDT'' then bitget_spot_loop rest symbols
          else (case bg_status s of
                  None \<Rightarrow> None
                | Some st \<Rightarrow>
                    if st \<noteq> ''online'' then bitget_spot_loop rest symbols
                    else (case bg_baseCoin s of
                            None \<Rightarrow> None
                          | Some b \<Rightarrow> bitget_spot_loop rest (insert (ccxt_symbol b) symbols))))"

definition bitget_spot_parse :: "bitget_spot_body \<Rightarrow> string set option" where
  "bitget_spot_parse data =
     (if bg_code data = Some ''00000''
      then (case bg_data data of None \<Rightarrow> None | Some l \<Rightarrow> bitget_spot_loop l {})
      else Some {})"

text \<open>OKX \<open>/api/v5/public/instruments?instType=SPOT\<close>: \<open>data.get("code") == "0"\<close>.\<close>

record okx_spot_item =
  ok_quoteCcy :: "string option"
  ok_state :: "string option"
  ok_baseCcy :: "string option"

record okx_spot_body =
  ok_code :: "string option"
  ok_data :: "okx_spot_item list option"

fun okx_spot_loop :: "okx_spot_item list \<Rightarrow> string set \<Rightarrow> string set option" where
  "okx_spot_loop [] symbols = Some symbols"
| "okx_spot_loop (s # rest) symbols =
     (case ok_quoteCcy s of
        None \<Rightarrow> None
      | Some q \<Rightarrow>
          if q \<noteq> ''USDT'' then okx_spot_loop rest symbols
          else (case ok_state s of
                  None \<Rightarrow> None
                | Some st \<Rightarrow>
                    if st \<noteq> ''live'' then okx_spot_loop rest symbols
                    else (case ok_baseCcy s of
                            None \<Rightarrow> None
                          | Some b \<Rightarrow> okx_spot_loop rest (insert (ccxt_symbol b) symbols))))"

definition okx_spot_parse :: "okx_spot_body \<Rightarrow> string set option" where
  "okx_spot_parse data =
     (if ok_code data = Some ''0''
      then (case ok_data data of None \<Rightarrow> None | Some l \<Rightarrow> okx_spot_loop l {})
      else Some {})"

text \<open>
  The four \<open>get_*_spot_symbols\<close> functions are the same text up to the cache key, the URL
  and the body of the \<open>try\<close>. \<open>spot_symbols_get\<close> is that common text: the freshness test
  (non-empty cached set and age below the TTL), else one GET; when the \<open>try\<close> body
  raises, the handler returns the cached set and stores nothing; otherwise the set that
  was built and the time read at the start of the call are stored.
\<close>

definition spot_fetch :: "('b \<Rightarrow> string set option) \<Rightarrow> 'b http \<Rightarrow> string set option" where
  "spot_fetch parse reply =
     (case reply of
        ConnFailed \<Rightarrow> None
      | Http status body \<Rightarrow> (case body of None \<Rightarrow> None | Some data \<Rightarrow> parse data))"

definition spot_symbols_get ::
  "exchange \<Rightarrow> string \<Rightarrow> ('b \<Rightarrow> string set option) \<Rightarrow> real \<Rightarrow> 'b http \<Rightarrow> spot_cache
     \<Rightarrow> string set \<times> spot_cache \<times> effect list" where
  "spot_symbols_get ex url parse now reply c =
     (if SPOT_SYMBOL_CACHE c ex \<noteq> {} \<and> now - SPOT_SYMBOL_LAST_FETCH c ex < SPOT_SYMBOL_TTL
      then (SPOT_SYMBOL_CACHE c ex, c, [])
      else (case spot_fetch parse reply of
              None \<Rightarrow> (SPOT_SYMBOL_CACHE c ex, c, [HttpGet url])
            | Some symbols \<Rightarrow>
                (symbols,
                 c\<lparr>SPOT_SYMBOL_CACHE := (SPOT_SYMBOL_CACHE c)(ex := symbols),
                   SPOT_SYMBOL_LAST_FETCH := (SPOT_SYMBOL_LAST_FETCH c)(ex := now)\<rparr>,
                 [HttpGet url])))"

definition get_binance_spot_symbols ::
  "real \<Rightarrow> binance_spot_body http \<Rightarrow> spot_cache \<Rightarrow> string set \<times> spot_cache \<times> effect list" where
  "get_binance_spot_symbols =
     spot_symbols_get Binance ''https://api.binance.com/api/v3/exchangeInfo'' binance_spot_parse"

definition get_bybit_spot_symbols ::
  "real \<Rightarrow> bybit_spot_body http \<Rightarrow> spot_cache \<Rightarrow> string set \<times> spot_cache \<times> effect list" where
  "get_bybit_spot_symbols =
     spot_symbols_get Bybit ''https://api.bybit.com/v5/market/instruments-info'' bybit_spot_parse"

definition get_bitget_spot_symbols ::
  "real \<Rightarrow> bitget_spot_body http \<Rightarrow> spot_cache \<Rightarrow> string set \<times> spot_cache \<times> effect list" where
  "get_bitget_spot_symbols =
     spot_symbols_get Bitget ''https://api.bitget.com/api/v2/spot/public/symbols'' bitget_spot_parse"

definition get_okx_spot_symbols ::
  "real \<Rightarrow> okx_spot_body http \<Rightarrow> spot_cache \<Rightarrow> string set \<times> spot_cache \<times> effect list" where
  "get_okx_spot_symbols =
     spot_symbols_get OKX ''https://www.okx.com/api/v5/public/instruments'' okx_spot_parse"

subsection \<open>REST collectors\<close>

text \<open>One element of Bybit's \<open>/v5/market/tickers?category=linear\<close> list.\<close>

record bybit_ticker =
  bbt_symbol :: "string option"
  bbt_fundingRate :: "real field"
  bbt_turnover24h :: "real field"
  bbt_lastPrice :: "real field"
  bbt_nextFundingTime :: "int field"

record bybit_tickers_body =
  bbt_retCode :: "int option"
  bbt_list :: "bybit_ticker list option"

text \<open>The dictionary literal stored under \<open>result[ccxt_symbol]\<close>.\<close>

definition bybit_entry :: "string \<Rightarrow> bybit_ticker \<Rightarrow> funding_entry option" where
  "bybit_entry key item =
     (case required (bbt_fundingRate item) of
        None \<Rightarrow> None
      | Some r \<Rightarrow>
     (case required (bbt_turnover24h item) of
        None \<Rightarrow> None
      | Some v \<Rightarrow>
     (case required (bbt_lastPrice item) of
        None \<Rightarrow> None
      | Some p \<Rightarrow>
     (case required (bbt_nextFundingTime item) of
        None \<Rightarrow> None
      | Some t \<Rightarrow>
          Some \<lparr>symbol = key, rate = r * 100, volume = v, price = p, next_funding = t\<rparr>))))"

fun bybit_loop :: "bool \<Rightarrow> string set \<Rightarrow> bybit_ticker list \<Rightarrow> snapshot \<Rightarrow> snapshot option" where
  "bybit_loop use_spot_filter spot_symbols [] result = Some result"
| "bybit_loop use_spot_filter spot_symbols (item # items) result =
     (case bbt_symbol item of
        None \<Rightarrow> None
      | Some raw \<Rightarrow>
          (case bybit_symbol_key raw of
             None \<Rightarrow> bybit_loop use_spot_filter spot_symbols items result
           | Some key \<Rightarrow>
               if use_spot_filter \<and> key \<notin> spot_symbols
               then bybit_loop use_spot_filter spot_symbols items result
               else (case bybit_entry key item of
                       None \<Rightarrow> None
                     | Some e \<Rightarrow>
                         bybit_loop use_spot_filter spot_symbols items
                           (AList.update key e result))))"

text \<open>
  What follows the spot lookup inside the \<open>try\<close> of \<open>get_bybit_funding_rates\<close>: \<open>None\<close>
  when it raises, otherwise the returned dictionary (the empty one on a status other
  than 200, and on a return code other than 0).
\<close>

definition bybit_try :: "bool \<Rightarrow> string set \<Rightarrow> bybit_tickers_body http \<Rightarrow> snapshot option" where
  "bybit_try use_spot_filter spot_symbols reply =
     (case reply of
        ConnFailed \<Rightarrow> None
      | Http status body \<Rightarrow>
          if status = 200
          then (case body of
                  None \<Rightarrow> None
                | Some data \<Rightarrow>
                    if bbt_retCode data = Some 0
                    then (case bbt_list data of
                            None \<Rightarrow> None
                          | Some l \<Rightarrow> bybit_loop use_spot_filter spot_symbols l [])
                    else Some [])
          else Some [])"

definition get_bybit_funding_rates ::
  "bool \<Rightarrow> real \<Rightarrow> bybit_spot_body http \<Rightarrow> bybit_tickers_body http \<Rightarrow> spot_cache
     \<Rightarrow> snapshot \<times> spot_cache \<times> effect list" where
  "get_bybit_funding_rates use_spot_filter now spot_reply reply c =
     (let (spot_symbols, c', fx) =
            (if use_spot_filter then get_bybit_spot_symbols now spot_reply c else ({}, c, []))
      in (case bybit_try use_spot_filter spot_symbols reply of
            None \<Rightarrow> ([], c', fx @ [HttpGet ''https://api.bybit.com/v5/market/tickers''])
          | Some result \<Rightarrow>
              (result, c', fx @ [HttpGet ''https://api.bybit.com/v5/market/tickers''])))"

text \<open>
  The inputs on which the \<open>try\<close> body raises, read off the code: for one list element,
  \<open>item["symbol"]\<close> is missing, or the element is a USDT instrument that passes the filter
  and one of its conversions fails; for the call, the request or the decoding fails, or
  the list is missing under return code 0, or some element raises.
\<close>

definition bybit_item_raises :: "bool \<Rightarrow> string set \<Rightarrow> bybit_ticker \<Rightarrow> bool" where
  "bybit_item_raises use_spot_filter spot_symbols item =
     (case bbt_symbol item of
        None \<Rightarrow> True
      | Some raw \<Rightarrow>
          (case bybit_symbol_key raw of
             None \<Rightarrow> False
           | Some key \<Rightarrow>
               if use_spot_filter \<and> key \<notin> spot_symbols then False
               else bybit_entry key item = None))"

definition bybit_call_raises :: "bool \<Rightarrow> string set \<Rightarrow> bybit_tickers_body http \<Rightarrow> bool" where
  "bybit_call_raises use_spot_filter spot_symbols reply =
     (case reply of
        ConnFailed \<Rightarrow> True
      | Http status body \<Rightarrow>
          status = 200 \<and>
          (case body of
             None \<Rightarrow> True
           | Some data \<Rightarrow>
               bbt_retCode data = Some 0 \<and>
               (case bbt_list data of
                  None \<Rightarrow> True
                | Some l \<Rightarrow> list_ex (bybit_item_raises use_spot_filter spot_symbols) l)))"

text \<open>One element of Bitget's \<open>/api/mix/v1/market/tickers?productType=umcbl\<close> list.\<close>

record bitget_ticker =
  bgt_symbol :: "string option"
  bgt_fundingRate :: "real field"
  bgt_quoteVolume :: "real field"
  bgt_last :: "real field"

record bitget_tickers_body =
  bgt_code :: "string option"
  bgt_data :: "bitget_ticker list option"

definition bitget_entry :: "string \<Rightarrow> bitget_ticker \<Rightarrow> funding_entry option" where
  "bitget_entry key item =
     (case optional 0 (bgt_fundingRate item) of
        None \<Rightarrow> None
      | Some r \<Rightarrow>
     (case optional 0 (bgt_quoteVolume item) of
        None \<Rightarrow> None
      | Some v \<Rightarrow>
     (case required (bgt_last item) of
        None \<Rightarrow> None
      | Some p \<Rightarrow>
          Some \<lparr>symbol = key, rate = r * 100, volume = v, price = p, next_funding = 0\<rparr>)))"

fun bitget_loop :: "bool \<Rightarrow> string set \<Rightarrow> bitget_ticker list \<Rightarrow> snapshot \<Rightarrow> snapshot option" where
  "bitget_loop use_spot_filter spot_symbols [] result = Some result"
| "bitget_loop use_spot_filter spot_symbols (item # items) result =
     (case bgt_symbol item of
        None \<Rightarrow> None
      | Some raw_symbol \<Rightarrow>
          (case bitget_symbol_key raw_symbol of
             None \<Rightarrow> bitget_loop use_spot_filter spot_symbols items result
           | Some key \<Rightarrow>
               if use_spot_filter \<and> key \<notin> spot_symbols
               then bitget_loop use_spot_filter spot_symbols items result
               else (case bitget_entry key item of
                       None \<Rightarrow> None
                     | Some e \<Rightarrow>
                         bitget_loop use_spot_filter spot_symbols items
                           (AList.update key e result))))"

definition bitget_try :: "bool \<Rightarrow> string set \<Rightarrow> bitget_tickers_body http \<Rightarrow> snapshot option" where
  "bitget_try use_spot_filter spot_symbols reply =
     (case reply of
        ConnFailed \<Rightarrow> None
      | Http status body \<Rightarrow>
          if status = 200
          then (case body of
                  None \<Rightarrow> None
                | Some data \<Rightarrow>
                    if bgt_code data = Some ''00000''
                    then (case bgt_data data of
                            None \<Rightarrow> None
                          | Some l \<Rightarrow> bitget_loop use_spot_filter spot_symbols l [])
                    else Some [])
          else Some [])"

definition get_bitget_funding_rates ::
  "bool \<Rightarrow> real \<Rightarrow> bitget_spot_body http \<Rightarrow> bitget_tickers_body http \<Rightarrow> spot_cache
     \<Rightarrow> snapshot \<times> spot_cache \<times> effect list" where
  "get_bitget_funding_rates use_spot_filter now spot_reply reply c =
     (let (spot_symbols, c', fx) =
            (if use_spot_filter then get_bitget_spot_symbols now spot_reply c else ({}, c, []))
      in (case bitget_try use_spot_filter spot_symbols reply of
            None \<Rightarrow> ([], c', fx @ [HttpGet ''https://api.bitget.com/api/mix/v1/market/tickers''])
          | Some result \<Rightarrow>
              (result, c', fx @ [HttpGet ''https://api.bitget.com/api/mix/v1/market/tickers''])))"

definition bitget_item_raises :: "bool \<Rightarrow> string set \<Rightarrow> bitget_ticker \<Rightarrow> bool" where
  "bitget_item_raises use_spot_filter spot_symbols item =
     (case bgt_symbol item of
        None \<Rightarrow> True
      | Some raw_symbol \<Rightarrow>
          (case bitget_symbol_key raw_symbol of
             None \<Rightarrow> False
           | Some key \<Rightarrow>
               if use_spot_filter \<and> key \<notin> spot_symbols then False
               else bitget_entry key item = None))"

definition bitget_call_raises :: "bool \<Rightarrow> string set \<Rightarrow> bitget_tickers_body http \<Rightarrow> bool" where
  "bitget_call_raises use_spot_filter spot_symbols reply =
     (case reply of
        ConnFailed \<Rightarrow> True
      | Http status body \<Rightarrow>
          status = 200 \<and>
          (case body of
             None \<Rightarrow> True
           | Some data \<Rightarrow>
               bgt_code data = Some ''00000'' \<and>
               (case bgt_data data of
                  None \<Rightarrow> True
                | Some l \<Rightarrow> list_ex (bitget_item_raises use_spot_filter spot_symbols) l)))"

subsection \<open>Binance WebSocket monitor\<close>

text \<open>
  Items of the \<open>!markPrice@arr@1s\<close> and \<open>!ticker@arr\<close> streams, the entry kept per symbol in
  \<open>_mark_data\<close>, and the monitor object. \<open>task\<close> says whether \<open>_task\<close> is set.
\<close>

record mark_item =
  bnw_s :: "string option"
  bnw_r :: "real field"
  bnw_p :: "real field"
  bnw_T :: "int field"

record volume_item =
  bnv_s :: "string option"
  bnv_q :: "real field"

record mark =
  mk_rate :: real
  mk_price :: real
  mk_next_funding :: int

record binance_monitor =
  mark_data :: "(string \<times> mark) list"
  ticker_volume :: "(string \<times> real) list"
  task :: bool

definition new_binance_monitor :: binance_monitor where
  "new_binance_monitor = \<lparr>mark_data = [], ticker_volume = [], task = False\<rparr>"

text \<open>
  A frame read from the socket: a text frame of the mark-price stream, one of the ticker
  stream, any other text frame (also one that \<open>json.loads\<close> rejects), an error frame, or
  a frame of another type.
\<close>

datatype binance_msg =
  MarkPrice "mark_item list"
| Ticker "volume_item list"
| OtherText
| WsError
| OtherFrame

definition mark_of :: "mark_item \<Rightarrow> mark option" where
  "mark_of item =
     (case optional 0 (bnw_r item) of
        None \<Rightarrow> None
      | Some r \<Rightarrow>
     (case optional 0 (bnw_p item) of
        None \<Rightarrow> None
      | Some p \<Rightarrow>
     (case optional 0 (bnw_T item) of
        None \<Rightarrow> None
      | Some t \<Rightarrow> Some \<lparr>mk_rate = r * 100, mk_price = p, mk_next_funding = t\<rparr>)))"

text \<open>
  The loops run inside one \<open>try\<close>: an item that raises ends the loop, and what the earlier
  items stored stays.
\<close>

fun mark_price_loop :: "mark_item list \<Rightarrow> (string \<times> mark) list \<Rightarrow> (string \<times> mark) list" where
  "mark_price_loop [] d = d"
| "mark_price_loop (item # items) d =
     (case binance_symbol_key (bnw_s item) of
        None \<Rightarrow> mark_price_loop items d
      | Some key \<Rightarrow>
          (case mark_of item of
             None \<Rightarrow> d
           | Some m \<Rightarrow> mark_price_loop items (AList.update key m d)))"

fun ticker_loop :: "volume_item list \<Rightarrow> (string \<times> real) list \<Rightarrow> (string \<times> real) list" where
  "ticker_loop [] d = d"
| "ticker_loop (item # items) d =
     (case binance_symbol_key (bnv_s item) of
        None \<Rightarrow> ticker_loop items d
      | Some key \<Rightarrow>
          (case optional 0 (bnv_q item) of
             None \<Rightarrow> d
           | Some q \<Rightarrow> ticker_loop items (AList.update key q d)))"

text \<open>The body of \<open>async for msg in ws\<close> in \<open>_connect\<close>, for one frame.\<close>

fun binance_on_message :: "binance_msg \<Rightarrow> binance_monitor \<Rightarrow> binance_monitor" where
  "binance_on_message (MarkPrice items) m = m\<lparr>mark_data := mark_price_loop items (mark_data m)\<rparr>"
| "binance_on_message (Ticker items) m = m\<lparr>ticker_volume := ticker_loop items (ticker_volume m)\<rparr>"
| "binance_on_message OtherText m = m"
| "binance_on_message WsError m = m"
| "binance_on_message OtherFrame m = m"

fun binance_snapshot_loop ::
  "bool \<Rightarrow> string set \<Rightarrow> (string \<times> real) list \<Rightarrow> (string \<times> mark) list \<Rightarrow> snapshot \<Rightarrow> snapshot" where
  "binance_snapshot_loop use_spot_filter spot_symbols tv [] snap = snap"
| "binance_snapshot_loop use_spot_filter spot_symbols tv ((key, mk) # rest) snap =
     (if use_spot_filter \<and> key \<notin> spot_symbols
      then binance_snapshot_loop use_spot_filter spot_symbols tv rest snap
      else binance_snapshot_loop use_spot_filter spot_symbols tv rest
             (AList.update key
                \<lparr>symbol = key, rate = mk_rate mk,
                 volume = (case map_of tv key of None \<Rightarrow> 0 | Some v \<Rightarrow> v),
                 price = mk_price mk, next_funding = mk_next_funding mk\<rparr> snap))"

text \<open>
  \<open>BinanceWebSocketMonitor.get_snapshot\<close>. \<open>start\<close> sets the task; the spot lookup is the
  only place where the call can be suspended, and only when it goes to the network:
  \<open>arrivals\<close> are the frames the receiving task handles meanwhile. The call contains no
  \<open>asyncio.sleep\<close>.
\<close>

definition binance_get_snapshot ::
  "bool \<Rightarrow> real \<Rightarrow> binance_spot_body http \<Rightarrow> binance_msg list \<Rightarrow> spot_cache \<Rightarrow> binance_monitor
     \<Rightarrow> snapshot \<times> binance_monitor \<times> spot_cache \<times> effect list" where
  "binance_get_snapshot use_spot_filter now spot_reply arrivals c m =
     (let m1 = m\<lparr>task := True\<rparr>;
          (spot_symbols, c', fx) =
            (if use_spot_filter then get_binance_spot_symbols now spot_reply c else ({}, c, []));
          m2 = (if fx = [] then m1 else fold binance_on_message arrivals m1)
      in (binance_snapshot_loop use_spot_filter spot_symbols (ticker_volume m2) (mark_data m2) [],
          m2, c', fx))"

subsection \<open>OKX WebSocket monitor\<close>

record okx_funding_item =
  okf_instId :: "string option"
  okf_fundingRate :: "real field"
  okf_nextFundingTime :: "int field"

record okx_ticker_item =
  okt_instId :: "string option"
  okt_last :: "real field"
  okt_volCcy24h :: "real field"

record okx_funding =
  of_rate :: real
  of_next_funding :: int

record okx_ticker =
  ot_price :: real
  ot_volume :: real

record okx_monitor =
  funding_data :: "(string \<times> okx_funding) list"
  ticker_data :: "(string \<times> okx_ticker) list"
  okx_task :: bool

definition new_okx_monitor :: okx_monitor where
  "new_okx_monitor = \<lparr>funding_data = [], ticker_data = [], okx_task = False\<rparr>"

datatype okx_msg =
  FundingRateMsg "okx_funding_item list"
| TickersMsg "okx_ticker_item list"
| PingMsg
| OkxOtherText
| OkxWsError
| OkxOtherFrame

definition okx_funding_of :: "okx_funding_item \<Rightarrow> (string \<times> okx_funding) option" where
  "okx_funding_of item =
     (case okf_instId item of
        None \<Rightarrow> None
      | Some inst_id \<Rightarrow>
     (case required (okf_fundingRate item) of
        None \<Rightarrow> None
      | Some r \<Rightarrow>
     (case required (okf_nextFundingTime item) of
        None \<Rightarrow> None
      | Some t \<Rightarrow>
          Some (okx_symbol_key inst_id, \<lparr>of_rate = r * 100, of_next_funding = t\<rparr>))))"

definition okx_ticker_of :: "okx_ticker_item \<Rightarrow> (string \<times> okx_ticker) option" where
  "okx_ticker_of item =
     (case okt_instId item of
        None \<Rightarrow> None
      | Some inst_id \<Rightarrow>
     (case required (okt_last item) of
        None \<Rightarrow> None
      | Some p \<Rightarrow>
     (case optional 0 (okt_volCcy24h item) of
        None \<Rightarrow> None
      | Some v \<Rightarrow>
          Some (okx_symbol_key inst_id, \<lparr>ot_price = p, ot_volume = v\<rparr>))))"

fun okx_funding_loop ::
  "okx_funding_item list \<Rightarrow> (string \<times> okx_funding) list \<Rightarrow> (string \<times> okx_funding) list" where
  "okx_funding_loop [] d = d"
| "okx_funding_loop (item # items) d =
     (case okx_funding_of item of
        None \<Rightarrow> d
      | Some (key, f) \<Rightarrow> okx_funding_loop items (AList.update key f d))"

fun okx_ticker_loop ::
  "okx_ticker_item list \<Rightarrow> (string \<times> okx_ticker) list \<Rightarrow> (string \<times> okx_ticker) list" where
  "okx_ticker_loop [] d = d"
| "okx_ticker_loop (item # items) d =
     (case okx_ticker_of item of
        None \<Rightarrow> d
      | Some (key, t) \<Rightarrow> okx_ticker_loop items (AList.update key t d))"

fun okx_on_message :: "okx_msg \<Rightarrow> okx_monitor \<Rightarrow> okx_monitor" where
  "okx_on_message (FundingRateMsg items) m =
     m\<lparr>funding_data := okx_funding_loop items (funding_data m)\<rparr>"
| "okx_on_message (TickersMsg items) m =
     m\<lparr>ticker_data := okx_ticker_loop items (ticker_data m)\<rparr>"
| "okx_on_message PingMsg m = m"
| "okx_on_message OkxOtherText m = m"
| "okx_on_message OkxWsError m = m"
| "okx_on_message OkxOtherFrame m = m"

fun okx_snapshot_loop ::
  "bool \<Rightarrow> string set \<Rightarrow> (string \<times> okx_ticker) list \<Rightarrow> (string \<times> okx_funding) list
     \<Rightarrow> snapshot \<Rightarrow> snapshot" where
  "okx_snapshot_loop use_spot_filter spot_symbols td [] snap = snap"
| "okx_snapshot_loop use_spot_filter spot_symbols td ((key, funding) # rest) snap =
     (if use_spot_filter \<and> key \<notin> spot_symbols
      then okx_snapshot_loop use_spot_filter spot_symbols td rest snap
      else okx_snapshot_loop use_spot_filter spot_symbols td rest
             (AList.update key
                \<lparr>symbol = key, rate = of_rate funding,
                 volume = (case map_of td key of None \<Rightarrow> 0 | Some t \<Rightarrow> ot_volume t),
                 price = (case map_of td key of None \<Rightarrow> 0 | Some t \<Rightarrow> ot_price t),
                 next_funding = of_next_funding funding\<rparr> snap))"

text \<open>
  \<open>OKXWebSocketMonitor.get_snapshot\<close>: after \<open>start\<close>, \<open>if not self._funding_data\<close> the call
  sleeps three seconds (\<open>during_sleep\<close> are the frames handled meanwhile), then the spot
  lookup (\<open>during_fetch\<close> likewise, when it goes to the network), then the loop.
\<close>

definition okx_get_snapshot ::
  "bool \<Rightarrow> real \<Rightarrow> okx_spot_body http \<Rightarrow> okx_msg list \<Rightarrow> okx_msg list \<Rightarrow> spot_cache \<Rightarrow> okx_monitor
     \<Rightarrow> snapshot \<times> okx_monitor \<times> spot_cache \<times> effect list" where
  "okx_get_snapshot use_spot_filter now spot_reply during_sleep during_fetch c m =
     (let m1 = m\<lparr>okx_task := True\<rparr>;
          (m2, fx1) =
            (if funding_data m1 = [] then (fold okx_on_message during_sleep m1, [Sleep 3])
             else (m1, []));
          (spot_symbols, c', fx2) =
            (if use_spot_filter then get_okx_spot_symbols now spot_reply c else ({}, c, []));
          m3 = (if fx2 = [] then m2 else fold okx_on_message during_fetch m2)
      in (okx_snapshot_loop use_spot_filter spot_symbols (ticker_data m3) (funding_data m3) [],
          m3, c', fx1 @ fx2))"

subsection \<open>Aggregator\<close>

text \<open>
  The four coroutines \<open>get_all_funding_rates\<close> may await, each closed over its state and
  its network: what \<open>get_bybit_funding_rates(use_spot_filter)\<close>,
  \<open>binance_monitor.get_snapshot(use_spot_filter)\<close>, \<open>get_bitget_funding_rates(use_spot_filter)\<close>
  and \<open>okx_monitor.get_snapshot(use_spot_filter)\<close> return. None of them raises (each body
  is wrapped in \<open>except Exception\<close>, or has nothing that can raise), so \<open>asyncio.gather\<close>
  returns the list of their results, in the order of the tasks.
\<close>

record collectors =
  run_bybit :: "bool \<Rightarrow> snapshot"
  run_binance :: "bool \<Rightarrow> snapshot"
  run_bitget :: "bool \<Rightarrow> snapshot"
  run_okx :: "bool \<Rightarrow> snapshot"

definition get_all_funding_rates ::
  "collectors \<Rightarrow> string list \<Rightarrow> bool \<Rightarrow> (string \<times> snapshot) list" where
  "get_all_funding_rates cs exchanges use_spot_filter =
     (let tasks =
            (if ''bybit'' \<in> set exchanges then [(''bybit'', run_bybit cs use_spot_filter)] else [])
          @ (if ''binance'' \<in> set exchanges then [(''binance'', run_binance cs use_spot_filter)] else [])
          @ (if ''bitget'' \<in> set exchanges then [(''bitget'', run_bitget cs use_spot_filter)] else [])
          @ (if ''okx'' \<in> set exchanges then [(''okx'', run_okx cs use_spot_filter)] else [])
      in if tasks = [] then []
         else let responses = map snd tasks
              in fold (\<lambda>(idx, (exch, _)) results. AList.update exch (responses ! idx) results)
                   (enumerate 0 tasks) [])"

subsection \<open>Ranking\<close>

text \<open>
  \<open>sorted(filtered, key=lambda x: abs(x[1]), reverse=True)[:5]\<close>. Python's sort is stable
  also under \<open>reverse=True\<close>; an insertion sort on the negated key is the same order.
\<close>

definition get_top_funding_rates :: "snapshot \<Rightarrow> bool \<Rightarrow> (string \<times> real) list" where
  "get_top_funding_rates funding_rates positive =
     (let filtered = [(k, rate d). (k, d) \<leftarrow> funding_rates, (rate d > 0) = positive];
          sorted_rates = sort_key (\<lambda>x. - \<bar>snd x\<bar>) filtered
      in take 5 sorted_rates)"

subsection \<open>Float arithmetic of the countdown\<close>

text \<open>
  The countdown is computed in IEEE double arithmetic, and the minute it shows depends on
  the rounding. \<open>round_double x\<close> is the double nearest to the real \<open>x\<close> (ties to even):
  \<open>ulp x\<close> is the spacing of the doubles around \<open>x\<close>, \<open>2\<close> to the power of the binary
  exponent less 52, the exponent held at \<open>-1022\<close> for the subnormal range. Magnitudes are
  taken to lie below the overflow threshold.
\<close>

definition round_half_even :: "real \<Rightarrow> int" where
  "round_half_even y =
     (let f = \<lfloor>y\<rfloor>; r = y - of_int f
      in if r < 1 / 2 then f else if 1 / 2 < r then f + 1 else if even f then f else f + 1)"

definition ulp :: "real \<Rightarrow> real" where
  "ulp x = 2 powr of_int (max \<lfloor>log 2 \<bar>x\<bar>\<rfloor> (- 1022) - 52)"

definition round_double :: "real \<Rightarrow> real" where
  "round_double x = (if x = 0 then 0 else of_int (round_half_even (x / ulp x)) * ulp x)"

text \<open>\<open>int(x)\<close> on a float: truncation towards zero.\<close>

definition py_int :: "real \<Rightarrow> int" where
  "py_int x = (if 0 \<le> x then \<lfloor>x\<rfloor> else \<lceil>x\<rceil>)"

text \<open>C's \<open>fmod\<close>: exact, with the sign of the dividend.\<close>

definition c_fmod :: "real \<Rightarrow> real \<Rightarrow> real" where
  "c_fmod x y = x - y * of_int (py_int (x / y))"

text \<open>
  CPython's float \<open>divmod\<close>, which \<open>//\<close> and \<open>%\<close> share: \<open>mod = fmod(vx, wx)\<close>,
  \<open>div = (vx - mod) / wx\<close>, both moved by one step when the remainder and the divisor
  differ in sign, then \<open>div\<close> snapped to the nearest integral value.
\<close>

definition float_divmod :: "real \<Rightarrow> real \<Rightarrow> real \<times> real" where
  "float_divmod vx wx =
     (let mod0 = c_fmod vx wx;
          div0 = round_double (round_double (vx - mod0) / wx);
          adjust = (mod0 \<noteq> 0 \<and> (wx < 0) \<noteq> (mod0 < 0));
          md = (if adjust then round_double (mod0 + wx) else mod0);
          dv = (if adjust then round_double (div0 - 1) else div0);
          floordiv =
            (if dv \<noteq> 0
             then (let fl = of_int \<lfloor>dv\<rfloor>
                   in if 1 / 2 < round_double (dv - fl) then round_double (fl + 1) else fl)
             else 0)
      in (floordiv, md))"

definition py_floordiv :: "real \<Rightarrow> real \<Rightarrow> real" where
  "py_floordiv x y = fst (float_divmod x y)"

definition py_mod :: "real \<Rightarrow> real \<Rightarrow> real" where
  "py_mod x y = snd (float_divmod x y)"

subsection \<open>Threshold alerts\<close>

text \<open>
  The countdown text: \<open>f"{hours}... {minutes}..."\<close> with the two numbers, or the fixed
  text for "no information".
\<close>

datatype countdown = HoursMinutes int int | NoInfo

record user_settings =
  threshold :: real
  volume_filter :: real
  exchanges :: "string list"
  active :: int
  spot_filter :: int

record alert =
  al_exchange :: string
  al_symbol :: string
  al_coin_name :: string
  al_rate :: real
  al_price :: real
  al_volume :: real
  al_countdown :: countdown

text \<open>
  \<open>remaining = max(0, data['next_funding'] / 1000 - time.time())\<close>: the quotient of two
  integers rounded to a double, then the difference with the clock reading \<open>now\<close> (a
  double) rounded again.
\<close>

definition remaining_of :: "real \<Rightarrow> funding_entry \<Rightarrow> real" where
  "remaining_of now d =
     max 0 (round_double (round_double (real_of_int (next_funding d) / 1000) - now))"

definition countdown_of :: "real \<Rightarrow> funding_entry \<Rightarrow> countdown" where
  "countdown_of now d =
     (if next_funding d \<noteq> 0
      then let remaining = remaining_of now d;
               hours = py_int (py_floordiv remaining 3600);
               minutes = py_int (py_floordiv (py_mod remaining 3600) 60)
           in HoursMinutes hours minutes
      else NoInfo)"

text \<open>
  The two loops of \<open>check_threshold_alerts\<close>. \<open>time.time()\<close> is called once for every
  selected entry that has a next-funding time: \<open>clock n\<close> is the value of the \<open>n\<close>-th call,
  and the loops pass on how many calls have been made.
\<close>

fun snapshot_alerts ::
  "(nat \<Rightarrow> real) \<Rightarrow> user_settings \<Rightarrow> string \<Rightarrow> snapshot \<Rightarrow> nat \<Rightarrow> alert list \<times> nat" where
  "snapshot_alerts clock settings exchange_name [] n = ([], n)"
| "snapshot_alerts clock settings exchange_name ((k, d) # rest) n =
     (if \<bar>rate d\<bar> \<ge> threshold settings \<and> volume d \<ge> volume_filter settings
      then let n' = (if next_funding d \<noteq> 0 then Suc n else n);
               (alerts, n'') = snapshot_alerts clock settings exchange_name rest n'
           in (\<lparr>al_exchange = exchange_name, al_symbol = k,
                al_coin_name = split_first (CHR ''/'') k,
                al_rate = rate d, al_price = price d, al_volume = volume d,
                al_countdown = countdown_of (clock n) d\<rparr> # alerts, n'')
      else snapshot_alerts clock settings exchange_name rest n)"

fun all_alerts ::
  "(nat \<Rightarrow> real) \<Rightarrow> user_settings \<Rightarrow> (string \<times> snapshot) list \<Rightarrow> nat \<Rightarrow> alert list \<times> nat" where
  "all_alerts clock settings [] n = ([], n)"
| "all_alerts clock settings ((exchange_name, funding_rates) # rest) n =
     (let (alerts, n') = snapshot_alerts clock settings exchange_name funding_rates n;
          (more, n'') = all_alerts clock settings rest n'
      in (alerts @ more, n''))"

text \<open>
  \<open>check_threshold_alerts\<close> up to the list \<open>alerts\<close>; \<open>all_rates\<close> is what
  \<open>get_all_funding_rates\<close> returned. An inactive user makes the function return before
  anything is collected.
\<close>

definition check_threshold_alerts ::
  "(nat \<Rightarrow> real) \<Rightarrow> user_settings \<Rightarrow> (string \<times> snapshot) list \<Rightarrow> alert list" where
  "check_threshold_alerts clock settings all_rates =
     (if active settings = 0 then [] else fst (all_alerts clock settings all_rates 0))"

section \<open>Properties\<close>

subsection \<open>Symbol canonicalization\<close>

lemma endswith_append [simp]: "endswith (b @ suf) suf"
  by (simp add: endswith_def)

lemma strip4_append4 [simp]: "length suf = 4 \<Longrightarrow> strip4 (b @ suf) = b"
  by (simp add: strip4_def)

lemma split_first_append [simp]: "c \<notin> set b \<Longrightarrow> split_first c (b @ c # rest) = b"
  by (induction b) (auto simp: split_first_def)

text \<open>
  Claim C8. Canonicalization is a function of the raw symbol alone, and the spellings
  of one base asset against USDT on the four exchanges (Bybit and Binance \<open>BASEUSDT\<close>,
  Bitget \<open>BASEUSDT_UMCBL\<close>, OKX \<open>BASE-USDT-SWAP\<close>) all yield the key \<open>BASE/USDT:USDT\<close>. A
  base asset is a ticker: it contains neither of the separators \<open>_\<close> and \<open>-\<close> that the
  exchanges' spellings are cut at.
\<close>

theorem canonical_key_same_across_exchanges:
  assumes "CHR ''_'' \<notin> set base" and "CHR ''-'' \<notin> set base"
  shows "bybit_symbol_key (base @ ''USDT'') = Some (base @ ''/USDT:USDT'')
       \<and> binance_symbol_key (Some (base @ ''USDT'')) = Some (base @ ''/USDT:USDT'')
       \<and> bitget_symbol_key (base @ ''USDT_UMCBL'') = Some (base @ ''/USDT:USDT'')
       \<and> okx_symbol_key (base @ ''-USDT-SWAP'') = base @ ''/USDT:USDT''"
proof -
  have u: "CHR ''_'' \<notin> set (base @ ''USDT'')" using assms(1) by simp
  have e: "base @ ''USDT_UMCBL'' = (base @ ''USDT'') @ ''_UMCBL''" by simp
  have "split_first (CHR ''_'') (base @ ''USDT_UMCBL'') = base @ ''USDT''"
    using split_first_append [OF u, of "''UMCBL''"] by simp
  moreover have "endswith (base @ ''USDT_UMCBL'') ''_UMCBL''"
    unfolding e by (rule endswith_append)
  ultimately have bitget:
    "bitget_symbol_key (base @ ''USDT_UMCBL'') = Some (base @ ''/USDT:USDT'')"
    by (simp add: bitget_symbol_key_def ccxt_symbol_def)
  have okx: "okx_symbol_key (base @ ''-USDT-SWAP'') = base @ ''/USDT:USDT''"
    using assms(2) by (simp add: okx_symbol_key_def ccxt_symbol_def)
  have bybit: "bybit_symbol_key (base @ ''USDT'') = Some (base @ ''/USDT:USDT'')"
    by (simp add: bybit_symbol_key_def ccxt_symbol_def)
  have binance: "binance_symbol_key (Some (base @ ''USDT'')) = Some (base @ ''/USDT:USDT'')"
    by (simp add: binance_symbol_key_def ccxt_symbol_def)
  show ?thesis using bybit binance bitget okx by simp
qed

theorem canonical_key_same_across_exchanges_witness:
  "CHR ''_'' \<notin> set ''BTC'' \<and> CHR ''-'' \<notin> set ''BTC''
   \<and> bybit_symbol_key ''BTCUSDT'' = Some ''BTC/USDT:USDT''
   \<and> binance_symbol_key (Some ''BTCUSDT'') = Some ''BTC/USDT:USDT''
   \<and> bitget_symbol_key ''BTCUSDT_UMCBL'' = Some ''BTC/USDT:USDT''
   \<and> okx_symbol_key ''BTC-USDT-SWAP'' = ''BTC/USDT:USDT''"
  using canonical_key_same_across_exchanges [of "''BTC''"] by simp

subsection \<open>Ranking: the top five\<close>

text \<open>
  What \<open>get_top_funding_rates\<close> guarantees: at most five entries, each on the side of
  the test \<open>rate > 0\<close> that was asked for, in non-increasing order of absolute rate, and
  entries of equal absolute rate in the order in which the snapshot lists them.
\<close>

lemma top_length: "length (get_top_funding_rates funding_rates positive) \<le> 5"
  by (simp add: get_top_funding_rates_def)

lemma top_sign:
  "(k, r) \<in> set (get_top_funding_rates funding_rates positive) \<Longrightarrow> (r > 0) = positive"
  by (auto simp: get_top_funding_rates_def dest!: in_set_takeD)

lemma sorted_wrt_abs_desc:
  "sorted_wrt (\<lambda>a b. \<bar>snd b\<bar> \<le> \<bar>snd a\<bar>)
     (sort_key (\<lambda>x. - \<bar>snd x\<bar>) (xs :: (string \<times> real) list))"
proof -
  have "sorted (map (\<lambda>x. - \<bar>snd x\<bar>) (sort_key (\<lambda>x. - \<bar>snd x\<bar>) xs))"
    by (rule sorted_sort_key)
  then have "sorted_wrt (\<lambda>a b. - \<bar>snd a\<bar> \<le> - \<bar>snd b\<bar>) (sort_key (\<lambda>x. - \<bar>snd x\<bar>) xs)"
    by (simp only: sorted_map)
  then show ?thesis
    by (rule sorted_wrt_mono_rel [rotated]) simp
qed

lemma top_sorted:
  "sorted_wrt (\<lambda>a b. \<bar>snd b\<bar> \<le> \<bar>snd a\<bar>) (get_top_funding_rates funding_rates positive)"
  unfolding get_top_funding_rates_def Let_def
  by (rule sorted_wrt_take) (rule sorted_wrt_abs_desc)

lemma prefix_filter_take: "prefix (filter P (take n xs)) (filter P xs)"
proof -
  have "filter P (take n xs @ drop n xs) = filter P (take n xs) @ filter P (drop n xs)"
    by (rule filter_append)
  then have "filter P xs = filter P (take n xs) @ filter P (drop n xs)"
    by simp
  then show ?thesis by (rule prefixI)
qed

lemma top_stable:
  "prefix (filter (\<lambda>x. \<bar>snd x\<bar> = a) (get_top_funding_rates funding_rates positive))
          (filter (\<lambda>x. \<bar>snd x\<bar> = a)
             [(k, rate d). (k, d) \<leftarrow> funding_rates, (rate d > 0) = positive])"
proof -
  let ?f = "[(k, rate d). (k, d) \<leftarrow> funding_rates, (rate d > 0) = positive]"
  have "filter (\<lambda>x. - \<bar>snd x\<bar> = - a) (sort_key (\<lambda>x. - \<bar>snd x\<bar>) ?f)
        = filter (\<lambda>x. - \<bar>snd x\<bar> = - a) ?f"
    by (rule sort_key_stable)
  then have eq: "filter (\<lambda>x. \<bar>snd x\<bar> = a) (sort_key (\<lambda>x. - \<bar>snd x\<bar>) ?f)
        = filter (\<lambda>x. \<bar>snd x\<bar> = a) ?f"
    by (simp only: neg_equal_iff_equal)
  have "prefix (filter (\<lambda>x. \<bar>snd x\<bar> = a) (take 5 (sort_key (\<lambda>x. - \<bar>snd x\<bar>) ?f)))
               (filter (\<lambda>x. \<bar>snd x\<bar> = a) (sort_key (\<lambda>x. - \<bar>snd x\<bar>) ?f))"
    by (rule prefix_filter_take)
  then show ?thesis
    unfolding get_top_funding_rates_def Let_def eq .
qed

text \<open>
  Claim C3. The claim asks that with \<open>positive = False\<close> every returned entry has a
  negative rate. The test in the code is \<open>(rate > 0) == positive\<close>, which puts a rate of
  exactly zero on the negative side: a snapshot with one negative and one zero rate
  returns both under \<open>positive = False\<close>. The \<open>/now\<close> command builds the same list with
  \<open>rate < 0\<close> and leaves the zero rate out.
\<close>

theorem top_negative_lists_zero_rate:
  "get_top_funding_rates
     [(''BTC/USDT:USDT'',
         \<lparr>symbol = ''BTC/USDT:USDT'', rate = 0, volume = 5000000, price = 65000,
          next_funding = 0\<rparr>),
      (''ETH/USDT:USDT'',
         \<lparr>symbol = ''ETH/USDT:USDT'', rate = - (1 / 100), volume = 3000000, price = 3000,
          next_funding = 0\<rparr>)]
     False
   = [(''ETH/USDT:USDT'', - (1 / 100)), (''BTC/USDT:USDT'', 0)]"
  by (simp add: get_top_funding_rates_def)

subsection \<open>Float arithmetic: where it is exact\<close>

lemma round_half_even_of_int [simp]: "round_half_even (of_int j) = j"
  by (simp add: round_half_even_def)

lemma round_double_zero [simp]: "round_double 0 = 0"
  by (simp add: round_double_def)

lemma two_powr_nonpos:
  assumes "n \<le> 0"
  shows "(2::real) powr real_of_int n = 1 / 2 ^ nat (- n)"
proof (cases "n = 0")
  case True
  then show ?thesis by simp
next
  case False
  with assms have "\<not> 0 \<le> n" by simp
  then show ?thesis using powr_int [of "2::real" n] by simp
qed

lemma ulp_of_int:
  assumes "k \<noteq> 0" and "\<bar>real_of_int k\<bar> \<le> 2 ^ 53"
  shows "\<exists>j. real_of_int k / ulp (of_int k) = of_int j"
proof -
  define x where "x = \<bar>real_of_int k\<bar>"
  define e where "e = \<lfloor>log 2 x\<rfloor>"
  define n where "n = e - 52"
  have x1: "1 \<le> x" using assms(1) unfolding x_def by (simp flip: of_int_abs)
  then have x0: "0 < x" by linarith
  have "0 \<le> log 2 x" using x1 by simp
  then have e0: "0 \<le> e" unfolding e_def by simp
  have "x \<le> 2 powr 53" using assms(2) unfolding x_def by simp
  then have "log 2 x \<le> 53" using x0 log_le_iff [of 2 x 53] by simp
  then have e53: "e \<le> 53" unfolding e_def by linarith
  have u: "ulp (of_int k) = 2 powr real_of_int n"
    using e0 unfolding ulp_def n_def e_def x_def by (simp add: max_def)
  show ?thesis
  proof (cases "n \<le> 0")
    case True
    have "real_of_int k / ulp (of_int k) = of_int (k * 2 ^ nat (- n))"
      unfolding u two_powr_nonpos [OF True] by simp
    then show ?thesis by blast
  next
    case False
    with e53 have n1: "n = 1" unfolding n_def by linarith
    then have e: "e = 53" unfolding n_def by linarith
    have "2 powr 53 \<le> x"
      using floor_log_eq_powr_iff [of x 2 53] x0 e unfolding e_def by simp
    then have "(2::real) ^ 53 \<le> x" by simp
    with assms(2) have x: "x = 2 ^ 53" unfolding x_def by linarith
    have ue: "ulp (of_int k) = 2" unfolding u n1 by simp
    have "\<bar>real_of_int k\<bar> = real_of_int (2 ^ 53)" using x unfolding x_def by simp
    then have "\<bar>k\<bar> = 2 ^ 53" by (simp only: of_int_eq_iff flip: of_int_abs)
    then have "k = 2 ^ 53 \<or> k = - (2 ^ 53)" by (simp only: abs_if split: if_splits) auto
    then have "even k" by auto
    then have "k = 2 * (k div 2)" by simp
    then have "real_of_int k = 2 * real_of_int (k div 2)"
      by (metis of_int_mult of_int_numeral)
    then have "real_of_int k / ulp (of_int k) = of_int (k div 2)" unfolding ue by simp
    then show ?thesis by blast
  qed
qed

text \<open>Every integer up to \<open>2^53\<close> in magnitude is a double.\<close>

lemma round_double_of_int:
  assumes "\<bar>real_of_int k\<bar> \<le> 2 ^ 53"
  shows "round_double (of_int k) = of_int k"
proof (cases "k = 0")
  case True
  then show ?thesis by simp
next
  case False
  from ulp_of_int [OF False assms] obtain j where j: "real_of_int k / ulp (of_int k) = of_int j"
    by blast
  have up: "0 < ulp (of_int k)" by (simp add: ulp_def)
  from j have "of_int j * ulp (of_int k) = real_of_int k" using up by (simp add: field_simps)
  then show ?thesis using False by (simp add: round_double_def j)
qed

lemma round_double_numeral:
  assumes "(numeral n :: real) \<le> 9007199254740992"
  shows "round_double (numeral n) = numeral n"
  using round_double_of_int [of "numeral n"] assms by simp

text \<open>
  For a dividend between \<open>0\<close> and \<open>2^53\<close> and a positive integer divisor, the float
  \<open>divmod\<close> is the exact floor quotient and the exact remainder.
\<close>

lemma float_divmod_exact:
  assumes x0: "0 \<le> x" and x53: "x \<le> 2 ^ 53" and c: "0 < c"
  shows "float_divmod x (of_int c)
           = (of_int \<lfloor>x / of_int c\<rfloor>, x - of_int c * of_int \<lfloor>x / of_int c\<rfloor>)"
proof -
  define w where "w = real_of_int c"
  define q where "q = \<lfloor>x / w\<rfloor>"
  have w1: "1 \<le> w" using c unfolding w_def by simp
  then have w0: "0 < w" by linarith
  have xw0: "0 \<le> x / w" using x0 w0 by simp
  then have q0: "0 \<le> q" unfolding q_def by simp
  have ql: "real_of_int q \<le> x / w" unfolding q_def by (rule of_int_floor_le)
  then have wq: "w * real_of_int q \<le> x" using w0 by (simp add: field_simps)
  have qu: "x / w < real_of_int q + 1" unfolding q_def by linarith
  then have wq1: "x < w * real_of_int q + w" using w0 by (simp add: field_simps)
  define m where "m = x - w * real_of_int q"
  have fm: "c_fmod x w = m"
    using xw0 unfolding c_fmod_def py_int_def q_def m_def by simp
  have m0: "0 \<le> m" and mw: "m < w" using wq wq1 unfolding m_def by linarith+
  have xm: "x - m = real_of_int (c * q)" unfolding m_def w_def by simp
  have "real_of_int q \<le> w * real_of_int q" using w1 q0 by (simp add: mult_le_cancel_right1)
  then have qx: "real_of_int q \<le> x" using wq by linarith
  have b1: "\<bar>real_of_int (c * q)\<bar> \<le> 2 ^ 53"
    using wq x53 q0 c unfolding w_def by simp
  have b2: "\<bar>real_of_int q\<bar> \<le> 2 ^ 53" using qx x53 q0 by simp
  have r1: "round_double (x - m) = w * real_of_int q"
    unfolding xm round_double_of_int [OF b1] w_def by simp
  have "w * real_of_int q / w = real_of_int q" using w0 by simp
  then have r2: "round_double (w * real_of_int q / w) = real_of_int q"
    using round_double_of_int [OF b2] by simp
  have adj: "(m \<noteq> 0 \<and> (w < 0) \<noteq> (m < 0)) = False" using m0 w0 by auto
  have "float_divmod x w = (real_of_int q, m)"
    unfolding float_divmod_def Let_def fm r1 r2 adj by simp
  then show ?thesis unfolding m_def q_def w_def .
qed

lemma floordiv_3600:
  assumes "0 \<le> x" and "x \<le> 9007199254740992"
  shows "py_floordiv x 3600 = of_int \<lfloor>x / 3600\<rfloor>"
  using float_divmod_exact [of x 3600] assms by (simp add: py_floordiv_def)

lemma mod_3600:
  assumes "0 \<le> x" and "x \<le> 9007199254740992"
  shows "py_mod x 3600 = x - 3600 * of_int \<lfloor>x / 3600\<rfloor>"
  using float_divmod_exact [of x 3600] assms by (simp add: py_mod_def)

lemma floordiv_60:
  assumes "0 \<le> x" and "x \<le> 9007199254740992"
  shows "py_floordiv x 60 = of_int \<lfloor>x / 60\<rfloor>"
  using float_divmod_exact [of x 60] assms by (simp add: py_floordiv_def)

lemma floor_parts:
  fixes x :: real
  assumes "0 \<le> x" and "x \<le> 9007199254740992"
  shows "0 \<le> py_int (py_floordiv x 3600)
       \<and> 0 \<le> py_int (py_floordiv (py_mod x 3600) 60)
       \<and> py_int (py_floordiv (py_mod x 3600) 60) < 60
       \<and> real_of_int (3600 * py_int (py_floordiv x 3600)
                        + 60 * py_int (py_floordiv (py_mod x 3600) 60)) \<le> x
       \<and> x < real_of_int (3600 * py_int (py_floordiv x 3600)
                        + 60 * py_int (py_floordiv (py_mod x 3600) 60)) + 60"
proof -
  define h where "h = \<lfloor>x / 3600\<rfloor>"
  define y where "y = x - 3600 * real_of_int h"
  define m where "m = \<lfloor>y / 60\<rfloor>"
  have h0: "0 \<le> h" using assms(1) by (simp add: h_def)
  have hl: "real_of_int h \<le> x / 3600" unfolding h_def by (rule of_int_floor_le)
  have hu: "x / 3600 < real_of_int h + 1" unfolding h_def by linarith
  have y0: "0 \<le> y" using hl unfolding y_def by linarith
  have y1: "y < 3600" using hu unfolding y_def by linarith
  have y53: "y \<le> 9007199254740992" using y1 by simp
  have ml: "real_of_int m \<le> y / 60" unfolding m_def by (rule of_int_floor_le)
  have mu: "y / 60 < real_of_int m + 1" unfolding m_def by linarith
  have m0: "0 \<le> m" using y0 by (simp add: m_def)
  have "real_of_int m < 60" using ml y1 by linarith
  then have m1: "m < 60" by linarith
  have H: "py_int (py_floordiv x 3600) = h"
    unfolding floordiv_3600 [OF assms] py_int_def h_def [symmetric] using h0 by simp
  have pm: "py_mod x 3600 = y"
    unfolding mod_3600 [OF assms] y_def h_def by simp
  have M: "py_int (py_floordiv (py_mod x 3600) 60) = m"
    unfolding pm floordiv_60 [OF y0 y53] py_int_def m_def [symmetric] using m0 by simp
  have lo: "real_of_int (3600 * h + 60 * m) \<le> x"
    using ml unfolding y_def by simp
  have hi: "x < real_of_int (3600 * h + 60 * m) + 60"
    using mu unfolding y_def by simp
  show ?thesis unfolding H M using h0 m0 m1 lo hi by simp
qed

text \<open>
  The rounding is visible at ordinary clock values. With the clock at the double
  nearest to \<open>1700000180.002\<close> and \<open>next_funding = 1700003600002\<close>, the rounded quotient
  and the clock differ by exactly \<open>3420\<close>, and the countdown is 0 hours 57 minutes, where
  unrounded arithmetic on the same two inputs would give 56.
\<close>

lemma ulp_2_30:
  assumes "2 ^ 30 \<le> x" and "x < 2 ^ 31"
  shows "ulp x = 1 / 4194304"
proof -
  have x0: "0 < x" using assms(1) by simp
  have "\<lfloor>log 2 x\<rfloor> = 30"
    using floor_log_eq_powr_iff [of x 2 30] x0 assms by simp
  then have "ulp x = 2 powr real_of_int (- 22)"
    using x0 by (simp add: ulp_def)
  also have "\<dots> = 1 / 2 ^ nat 22" using two_powr_nonpos [of "- 22"] by simp
  finally show ?thesis by simp
qed

lemma round_double_2_30:
  assumes "2 ^ 30 \<le> x" and "x < 2 ^ 31"
  shows "round_double x = of_int (round_half_even (x * 4194304)) / 4194304"
proof -
  have "x \<noteq> 0" using assms(1) by auto
  then show ?thesis unfolding round_double_def ulp_2_30 [OF assms] by simp
qed

lemma countdown_rounds_as_doubles:
  "round_double (1700000180002 / 1000) = 7130317554983109 / 4194304
   \<and> countdown_of (7130317554983109 / 4194304)
        \<lparr>symbol = ''BTC/USDT:USDT'', rate = 15 / 100, volume = 2000000, price = 65000,
         next_funding = 1700003600002\<rparr>
       = HoursMinutes 0 57"
proof -
  have now: "round_double (1700000180002 / 1000) = 7130317554983109 / 4194304"
    by (simp add: round_double_2_30 round_half_even_def Let_def)
  have r: "remaining_of (7130317554983109 / 4194304)
        \<lparr>symbol = ''BTC/USDT:USDT'', rate = 15 / 100, volume = 2000000, price = 65000,
         next_funding = 1700003600002\<rparr> = 3420"
    unfolding remaining_of_def
    by (simp add: round_double_2_30 round_half_even_def Let_def round_double_numeral)
  show ?thesis
    using now unfolding countdown_of_def Let_def r
    by (simp add: floordiv_3600 mod_3600 floordiv_60 py_int_def)
qed

subsection \<open>Ranking: threshold alerts\<close>

lemma snapshot_alerts_entries:
  "map (\<lambda>a. a\<lparr>al_countdown := NoInfo\<rparr>)
       (fst (snapshot_alerts clock settings exchange_name funding_rates n))
     = [\<lparr>al_exchange = exchange_name, al_symbol = k,
          al_coin_name = split_first (CHR ''/'') k,
          al_rate = rate d, al_price = price d, al_volume = volume d,
          al_countdown = NoInfo\<rparr>.
        (k, d) \<leftarrow> funding_rates,
        \<bar>rate d\<bar> \<ge> threshold settings \<and> volume d \<ge> volume_filter settings]"
proof (induction funding_rates arbitrary: n)
  case Nil
  then show ?case by simp
next
  case (Cons p funding_rates)
  obtain k d where p: "p = (k, d)" by (cases p)
  show ?case
  proof (cases "threshold settings \<le> \<bar>rate d\<bar> \<and> volume_filter settings \<le> volume d")
    case False
    then show ?thesis unfolding p using Cons.IH [of n] by auto
  next
    case True
    let ?n' = "if next_funding d \<noteq> 0 then Suc n else n"
    obtain a1 n1 where r:
      "snapshot_alerts clock settings exchange_name funding_rates ?n' = (a1, n1)"
      by (cases "snapshot_alerts clock settings exchange_name funding_rates ?n'")
    have "fst (snapshot_alerts clock settings exchange_name ((k, d) # funding_rates) n)
          = \<lparr>al_exchange = exchange_name, al_symbol = k,
              al_coin_name = split_first (CHR ''/'') k,
              al_rate = rate d, al_price = price d, al_volume = volume d,
              al_countdown = countdown_of (clock n) d\<rparr> # a1"
      using True r by (simp add: Let_def)
    then show ?thesis unfolding p using Cons.IH [of ?n'] True unfolding r by simp
  qed
qed

lemma all_alerts_entries:
  "map (\<lambda>a. a\<lparr>al_countdown := NoInfo\<rparr>) (fst (all_alerts clock settings all_rates n))
     = [\<lparr>al_exchange = exchange_name, al_symbol = k,
          al_coin_name = split_first (CHR ''/'') k,
          al_rate = rate d, al_price = price d, al_volume = volume d,
          al_countdown = NoInfo\<rparr>.
        (exchange_name, funding_rates) \<leftarrow> all_rates,
        (k, d) \<leftarrow> funding_rates,
        \<bar>rate d\<bar> \<ge> threshold settings \<and> volume d \<ge> volume_filter settings]"
proof (induction all_rates arbitrary: n)
  case Nil
  then show ?case by simp
next
  case (Cons p all_rates)
  obtain exchange_name funding_rates where p: "p = (exchange_name, funding_rates)"
    by (cases p)
  obtain a1 n1 where s:
    "snapshot_alerts clock settings exchange_name funding_rates n = (a1, n1)"
    by (cases "snapshot_alerts clock settings exchange_name funding_rates n")
  obtain a2 n2 where r: "all_alerts clock settings all_rates n1 = (a2, n2)"
    by (cases "all_alerts clock settings all_rates n1")
  have a1: "map (\<lambda>a. a\<lparr>al_countdown := NoInfo\<rparr>) a1
      = [\<lparr>al_exchange = exchange_name, al_symbol = k,
          al_coin_name = split_first (CHR ''/'') k,
          al_rate = rate d, al_price = price d, al_volume = volume d,
          al_countdown = NoInfo\<rparr>.
        (k, d) \<leftarrow> funding_rates,
        \<bar>rate d\<bar> \<ge> threshold settings \<and> volume d \<ge> volume_filter settings]"
    using snapshot_alerts_entries [of clock settings exchange_name funding_rates n]
    unfolding s by simp
  show ?case unfolding p using Cons.IH [of n1] a1 by (simp add: s r)
qed

lemma snapshot_alerts_countdown:
  assumes "a \<in> set (fst (snapshot_alerts clock settings exchange_name funding_rates n))"
  shows "\<exists>k d i. (k, d) \<in> set funding_rates
           \<and> threshold settings \<le> \<bar>rate d\<bar> \<and> volume_filter settings \<le> volume d
           \<and> a = \<lparr>al_exchange = exchange_name, al_symbol = k,
                   al_coin_name = split_first (CHR ''/'') k,
                   al_rate = rate d, al_price = price d, al_volume = volume d,
                   al_countdown = countdown_of (clock i) d\<rparr>"
  using assms
proof (induction funding_rates arbitrary: n)
  case Nil
  then show ?case by simp
next
  case (Cons p funding_rates)
  obtain k d where p: "p = (k, d)" by (cases p)
  show ?case
  proof (cases "threshold settings \<le> \<bar>rate d\<bar> \<and> volume_filter settings \<le> volume d")
    case False
    with Cons.prems p
    have "a \<in> set (fst (snapshot_alerts clock settings exchange_name funding_rates n))"
      by auto
    from Cons.IH [OF this] show ?thesis by auto
  next
    case True
    let ?n' = "if next_funding d \<noteq> 0 then Suc n else n"
    let ?a = "\<lparr>al_exchange = exchange_name, al_symbol = k,
                al_coin_name = split_first (CHR ''/'') k,
                al_rate = rate d, al_price = price d, al_volume = volume d,
                al_countdown = countdown_of (clock n) d\<rparr>"
    obtain a1 n1 where r:
      "snapshot_alerts clock settings exchange_name funding_rates ?n' = (a1, n1)"
      by (cases "snapshot_alerts clock settings exchange_name funding_rates ?n'")
    have "fst (snapshot_alerts clock settings exchange_name ((k, d) # funding_rates) n)
          = ?a # a1"
      using True r by (simp add: Let_def)
    with Cons.prems p
    have "a = ?a
        \<or> a \<in> set (fst (snapshot_alerts clock settings exchange_name funding_rates ?n'))"
      unfolding r by auto
    then show ?thesis
    proof
      assume "a = ?a"
      then show ?thesis using True p by auto
    next
      assume "a \<in> set (fst (snapshot_alerts clock settings exchange_name funding_rates ?n'))"
      from Cons.IH [OF this] show ?thesis by auto
    qed
  qed
qed

lemma all_alerts_countdown:
  assumes "a \<in> set (fst (all_alerts clock settings all_rates n))"
  shows "\<exists>exchange_name funding_rates k d i.
             (exchange_name, funding_rates) \<in> set all_rates
           \<and> (k, d) \<in> set funding_rates
           \<and> threshold settings \<le> \<bar>rate d\<bar> \<and> volume_filter settings \<le> volume d
           \<and> a = \<lparr>al_exchange = exchange_name, al_symbol = k,
                   al_coin_name = split_first (CHR ''/'') k,
                   al_rate = rate d, al_price = price d, al_volume = volume d,
                   al_countdown = countdown_of (clock i) d\<rparr>"
  using assms
proof (induction all_rates arbitrary: n)
  case Nil
  then show ?case by simp
next
  case (Cons p all_rates)
  obtain exchange_name funding_rates where p: "p = (exchange_name, funding_rates)"
    by (cases p)
  obtain a1 n1 where s:
    "snapshot_alerts clock settings exchange_name funding_rates n = (a1, n1)"
    by (cases "snapshot_alerts clock settings exchange_name funding_rates n")
  obtain a2 n2 where r: "all_alerts clock settings all_rates n1 = (a2, n2)"
    by (cases "all_alerts clock settings all_rates n1")
  from Cons.prems have "a \<in> set a1 \<or> a \<in> set a2" unfolding p by (simp add: s r)
  then show ?case
  proof
    assume "a \<in> set a1"
    then have "a \<in> set (fst (snapshot_alerts clock settings exchange_name funding_rates n))"
      unfolding s by simp
    from snapshot_alerts_countdown [OF this] obtain k d i where
      "(k, d) \<in> set funding_rates"
      "threshold settings \<le> \<bar>rate d\<bar> \<and> volume_filter settings \<le> volume d"
      "a = \<lparr>al_exchange = exchange_name, al_symbol = k,
             al_coin_name = split_first (CHR ''/'') k,
             al_rate = rate d, al_price = price d, al_volume = volume d,
             al_countdown = countdown_of (clock i) d\<rparr>"
      by blast
    moreover have "(exchange_name, funding_rates) \<in> set (p # all_rates)"
      unfolding p by simp
    ultimately show ?thesis by blast
  next
    assume "a \<in> set a2"
    then have "a \<in> set (fst (all_alerts clock settings all_rates n1))" unfolding r by simp
    from Cons.IH [OF this] obtain exchange_name' funding_rates' k d i where
      "(exchange_name', funding_rates') \<in> set all_rates"
      "(k, d) \<in> set funding_rates'"
      "threshold settings \<le> \<bar>rate d\<bar> \<and> volume_filter settings \<le> volume d"
      "a = \<lparr>al_exchange = exchange_name', al_symbol = k,
             al_coin_name = split_first (CHR ''/'') k,
             al_rate = rate d, al_price = price d, al_volume = volume d,
             al_countdown = countdown_of (clock i) d\<rparr>"
      by blast
    moreover from this(1) have "(exchange_name', funding_rates') \<in> set (p # all_rates)"
      by simp
    ultimately show ?thesis by blast
  qed
qed

lemma countdown_known:
  assumes "next_funding d \<noteq> 0" and "remaining_of now d \<le> 9007199254740992"
  shows "\<exists>h m. countdown_of now d = HoursMinutes h m \<and> 0 \<le> h \<and> 0 \<le> m \<and> m < 60
           \<and> real_of_int (3600 * h + 60 * m) \<le> remaining_of now d
           \<and> remaining_of now d < real_of_int (3600 * h + 60 * m) + 60"
proof -
  let ?r = "remaining_of now d"
  have c: "countdown_of now d
           = HoursMinutes (py_int (py_floordiv ?r 3600)) (py_int (py_floordiv (py_mod ?r 3600) 60))"
    using assms(1) by (simp add: countdown_of_def Let_def)
  have "0 \<le> ?r" by (simp add: remaining_of_def)
  from floor_parts [OF this assms(2)] show ?thesis unfolding c by blast
qed

text \<open>
  Claim C4. For an active user the alerts are, in order and one for one, the entries with
  \<open>|rate| \<ge> threshold\<close> and \<open>volume \<ge> volume_filter\<close>; each alert's countdown is computed
  from its own entry and a reading of the clock. The countdown of an entry is
  \<open>max(0, next_funding / 1000 - now)\<close>, as the float arithmetic yields it, cut into whole
  hours and whole minutes below sixty (for a remaining time of at most \<open>2^53\<close> seconds);
  an entry whose \<open>next_funding\<close> is zero carries the "no information" text.
\<close>

theorem threshold_alerts_selection:
  assumes "active settings \<noteq> 0"
  shows "map (\<lambda>a. a\<lparr>al_countdown := NoInfo\<rparr>) (check_threshold_alerts clock settings all_rates)
           = [\<lparr>al_exchange = exchange_name, al_symbol = k,
                al_coin_name = split_first (CHR ''/'') k,
                al_rate = rate d, al_price = price d, al_volume = volume d,
                al_countdown = NoInfo\<rparr>.
              (exchange_name, funding_rates) \<leftarrow> all_rates,
              (k, d) \<leftarrow> funding_rates,
              \<bar>rate d\<bar> \<ge> threshold settings \<and> volume d \<ge> volume_filter settings]
       \<and> (\<forall>a \<in> set (check_threshold_alerts clock settings all_rates).
            \<exists>exchange_name funding_rates k d i.
               (exchange_name, funding_rates) \<in> set all_rates
             \<and> (k, d) \<in> set funding_rates
             \<and> threshold settings \<le> \<bar>rate d\<bar> \<and> volume_filter settings \<le> volume d
             \<and> a = \<lparr>al_exchange = exchange_name, al_symbol = k,
                     al_coin_name = split_first (CHR ''/'') k,
                     al_rate = rate d, al_price = price d, al_volume = volume d,
                     al_countdown = countdown_of (clock i) d\<rparr>)
       \<and> (next_funding e = 0 \<longrightarrow> countdown_of now e = NoInfo)
       \<and> (next_funding e \<noteq> 0 \<and> remaining_of now e \<le> 9007199254740992 \<longrightarrow>
            (\<exists>h m. countdown_of now e = HoursMinutes h m \<and> 0 \<le> h \<and> 0 \<le> m \<and> m < 60
               \<and> real_of_int (3600 * h + 60 * m) \<le> remaining_of now e
               \<and> remaining_of now e < real_of_int (3600 * h + 60 * m) + 60))"
proof -
  have c: "check_threshold_alerts clock settings all_rates
           = fst (all_alerts clock settings all_rates 0)"
    using assms by (simp add: check_threshold_alerts_def)
  have none: "next_funding e = 0 \<longrightarrow> countdown_of now e = NoInfo"
    by (simp add: countdown_of_def)
  show ?thesis
    unfolding c
    using all_alerts_entries [of clock settings all_rates 0]
      all_alerts_countdown [of _ clock settings all_rates 0]
      none countdown_known [of e now]
    by blast
qed

theorem threshold_alerts_selection_witness:
  "active \<lparr>threshold = 1 / 10, volume_filter = 1000000, exchanges = [''bybit''],
           active = 1, spot_filter = 1\<rparr> \<noteq> 0
   \<and> next_funding \<lparr>symbol = ''A/USDT:USDT'', rate = - (15 / 100), volume = 2000000,
                    price = 2, next_funding = 7559000\<rparr> \<noteq> 0
   \<and> remaining_of 300 \<lparr>symbol = ''A/USDT:USDT'', rate = - (15 / 100), volume = 2000000,
                    price = 2, next_funding = 7559000\<rparr> = 7259
   \<and> check_threshold_alerts (\<lambda>n. 300 + 60 * real n)
        \<lparr>threshold = 1 / 10, volume_filter = 1000000, exchanges = [''bybit''],
         active = 1, spot_filter = 1\<rparr>
        [(''bybit'',
          [(''A/USDT:USDT'',
              \<lparr>symbol = ''A/USDT:USDT'', rate = - (15 / 100), volume = 2000000, price = 2,
               next_funding = 7559000\<rparr>),
           (''B/USDT:USDT'',
              \<lparr>symbol = ''B/USDT:USDT'', rate = 5 / 100, volume = 5000000, price = 3,
               next_funding = 7559000\<rparr>),
           (''C/USDT:USDT'',
              \<lparr>symbol = ''C/USDT:USDT'', rate = 2 / 10, volume = 1000000, price = 4,
               next_funding = 0\<rparr>),
           (''D/USDT:USDT'',
              \<lparr>symbol = ''D/USDT:USDT'', rate = 3 / 10, volume = 4000000, price = 5,
               next_funding = 7559000\<rparr>)])]
      = [\<lparr>al_exchange = ''bybit'', al_symbol = ''A/USDT:USDT'', al_coin_name = ''A'',
          al_rate = - (15 / 100), al_price = 2, al_volume = 2000000,
          al_countdown = HoursMinutes 2 0\<rparr>,
         \<lparr>al_exchange = ''bybit'', al_symbol = ''C/USDT:USDT'', al_coin_name = ''C'',
          al_rate = 2 / 10, al_price = 4, al_volume = 1000000,
          al_countdown = NoInfo\<rparr>,
         \<lparr>al_exchange = ''bybit'', al_symbol = ''D/USDT:USDT'', al_coin_name = ''D'',
          al_rate = 3 / 10, al_price = 5, al_volume = 4000000,
          al_countdown = HoursMinutes 1 59\<rparr>]"
  using threshold_alerts_selection
    [of "\<lparr>threshold = 1 / 10, volume_filter = 1000000, exchanges = [''bybit''],
          active = 1, spot_filter = 1\<rparr>"
        "\<lambda>n. 300 + 60 * real n"
        "[(''bybit'',
          [(''A/USDT:USDT'',
              \<lparr>symbol = ''A/USDT:USDT'', rate = - (15 / 100), volume = 2000000, price = 2,
               next_funding = 7559000\<rparr>),
           (''B/USDT:USDT'',
              \<lparr>symbol = ''B/USDT:USDT'', rate = 5 / 100, volume = 5000000, price = 3,
               next_funding = 7559000\<rparr>),
           (''C/USDT:USDT'',
              \<lparr>symbol = ''C/USDT:USDT'', rate = 2 / 10, volume = 1000000, price = 4,
               next_funding = 0\<rparr>),
           (''D/USDT:USDT'',
              \<lparr>symbol = ''D/USDT:USDT'', rate = 3 / 10, volume = 4000000, price = 5,
               next_funding = 7559000\<rparr>)])]"
        "\<lparr>symbol = ''A/USDT:USDT'', rate = - (15 / 100), volume = 2000000,
                    price = 2, next_funding = 7559000\<rparr>"
        300]
  by (simp add: check_threshold_alerts_def countdown_of_def remaining_of_def split_first_def
        round_double_numeral floordiv_3600 mod_3600 floordiv_60 py_int_def)

subsection \<open>Spot-symbol cache\<close>

lemma spot_get_fresh:
  assumes "SPOT_SYMBOL_CACHE c ex \<noteq> {}"
      and "now - SPOT_SYMBOL_LAST_FETCH c ex < SPOT_SYMBOL_TTL"
  shows "spot_symbols_get ex url parse now reply c = (SPOT_SYMBOL_CACHE c ex, c, [])"
  using assms by (simp add: spot_symbols_get_def)

lemma spot_get_raised:
  assumes "snd (snd (spot_symbols_get ex url parse now reply c)) \<noteq> []"
      and "spot_fetch parse reply = None"
  shows "spot_symbols_get ex url parse now reply c = (SPOT_SYMBOL_CACHE c ex, c, [HttpGet url])"
  using assms by (simp add: spot_symbols_get_def split: if_splits)

lemma spot_get_refreshed:
  assumes "snd (snd (spot_symbols_get ex url parse now reply c)) \<noteq> []"
      and "spot_fetch parse reply = Some symbols"
  shows "spot_symbols_get ex url parse now reply c =
           (symbols,
            c\<lparr>SPOT_SYMBOL_CACHE := (SPOT_SYMBOL_CACHE c)(ex := symbols),
              SPOT_SYMBOL_LAST_FETCH := (SPOT_SYMBOL_LAST_FETCH c)(ex := now)\<rparr>,
            [HttpGet url])"
  using assms by (simp add: spot_symbols_get_def split: if_splits)

lemma spot_get_twice:
  assumes "snd (snd (spot_symbols_get ex url parse t reply c)) \<noteq> []"
      and "spot_fetch parse reply = Some symbols"
      and "symbols \<noteq> {}"
      and "t' - t < SPOT_SYMBOL_TTL"
  shows "spot_symbols_get ex url parse t' reply' (fst (snd (spot_symbols_get ex url parse t reply c)))
           = (symbols, fst (snd (spot_symbols_get ex url parse t reply c)), [])
       \<and> fst (spot_symbols_get ex url parse t reply c) = symbols"
proof -
  let ?c1 = "c\<lparr>SPOT_SYMBOL_CACHE := (SPOT_SYMBOL_CACHE c)(ex := symbols),
               SPOT_SYMBOL_LAST_FETCH := (SPOT_SYMBOL_LAST_FETCH c)(ex := t)\<rparr>"
  have first: "spot_symbols_get ex url parse t reply c = (symbols, ?c1, [HttpGet url])"
    by (rule spot_get_refreshed [OF assms(1,2)])
  have "SPOT_SYMBOL_CACHE ?c1 ex \<noteq> {}" using assms(3) by simp
  moreover have "t' - SPOT_SYMBOL_LAST_FETCH ?c1 ex < SPOT_SYMBOL_TTL" using assms(4) by simp
  ultimately have "spot_symbols_get ex url parse t' reply' ?c1 = (SPOT_SYMBOL_CACHE ?c1 ex, ?c1, [])"
    by (rule spot_get_fresh)
  then show ?thesis unfolding first by simp
qed

text \<open>
  Claim C5, as stated, fails: a get call that completes without a successful, non-empty
  refresh leaves nothing that counts as fresh. Here the first call fails on the network
  with an empty cache and returns the empty set; the second call, ten seconds later,
  goes to the network and returns another set.
\<close>

theorem spot_get_after_failed_get_refetches:
  "fst (get_bybit_spot_symbols 1700000000 ConnFailed initial_spot_cache) = {}
   \<and> (1700000010 :: real) - 1700000000 < SPOT_SYMBOL_TTL
   \<and> snd (snd (get_bybit_spot_symbols 1700000010
                  (Http 200 (Some \<lparr>bb_retCode = Some 0,
                     bb_list = Some [\<lparr>bb_quoteCoin = Some ''USDT'', bb_baseCoin = Some ''BTC''\<rparr>]\<rparr>))
                  (fst (snd (get_bybit_spot_symbols 1700000000 ConnFailed initial_spot_cache)))))
       = [HttpGet ''https://api.bybit.com/v5/market/instruments-info'']
   \<and> fst (get_bybit_spot_symbols 1700000010
             (Http 200 (Some \<lparr>bb_retCode = Some 0,
                bb_list = Some [\<lparr>bb_quoteCoin = Some ''USDT'', bb_baseCoin = Some ''BTC''\<rparr>]\<rparr>))
             (fst (snd (get_bybit_spot_symbols 1700000000 ConnFailed initial_spot_cache))))
       = {''BTC/USDT:USDT''}"
  by (simp add: get_bybit_spot_symbols_def spot_symbols_get_def spot_fetch_def
        initial_spot_cache_def SPOT_SYMBOL_TTL_def bybit_spot_parse_def ccxt_symbol_def)

text \<open>
  Claim C5, amended. For each of the four exchanges: when a get call that reads the
  clock at \<open>t\<close> goes to the network and its fetch succeeds with a non-empty set, a get call
  on the resulting cache at any \<open>t'\<close> with \<open>t' - t < 3600\<close> issues no request, returns that
  same set, and leaves the cache as it is.
\<close>

theorem spot_get_within_ttl_of_refresh:
  assumes "symbols \<noteq> {}" and "t' - t < SPOT_SYMBOL_TTL"
  shows "(snd (snd (get_binance_spot_symbols t reply_binance c)) \<noteq> []
            \<and> spot_fetch binance_spot_parse reply_binance = Some symbols \<longrightarrow>
          fst (get_binance_spot_symbols t reply_binance c) = symbols
          \<and> get_binance_spot_symbols t' next_binance (fst (snd (get_binance_spot_symbols t reply_binance c)))
              = (symbols, fst (snd (get_binance_spot_symbols t reply_binance c)), []))
       \<and> (snd (snd (get_bybit_spot_symbols t reply_bybit c)) \<noteq> []
            \<and> spot_fetch bybit_spot_parse reply_bybit = Some symbols \<longrightarrow>
          fst (get_bybit_spot_symbols t reply_bybit c) = symbols
          \<and> get_bybit_spot_symbols t' next_bybit (fst (snd (get_bybit_spot_symbols t reply_bybit c)))
              = (symbols, fst (snd (get_bybit_spot_symbols t reply_bybit c)), []))
       \<and> (snd (snd (get_bitget_spot_symbols t reply_bitget c)) \<noteq> []
            \<and> spot_fetch bitget_spot_parse reply_bitget = Some symbols \<longrightarrow>
          fst (get_bitget_spot_symbols t reply_bitget c) = symbols
          \<and> get_bitget_spot_symbols t' next_bitget (fst (snd (get_bitget_spot_symbols t reply_bitget c)))
              = (symbols, fst (snd (get_bitget_spot_symbols t reply_bitget c)), []))
       \<and> (snd (snd (get_okx_spot_symbols t reply_okx c)) \<noteq> []
            \<and> spot_fetch okx_spot_parse reply_okx = Some symbols \<longrightarrow>
          fst (get_okx_spot_symbols t reply_okx c) = symbols
          \<and> get_okx_spot_symbols t' next_okx (fst (snd (get_okx_spot_symbols t reply_okx c)))
              = (symbols, fst (snd (get_okx_spot_symbols t reply_okx c)), []))"
proof -
  note twice = spot_get_twice [OF _ _ assms]
  have binance: "snd (snd (get_binance_spot_symbols t reply_binance c)) \<noteq> []
            \<and> spot_fetch binance_spot_parse reply_binance = Some symbols \<longrightarrow>
          fst (get_binance_spot_symbols t reply_binance c) = symbols
          \<and> get_binance_spot_symbols t' next_binance
                (fst (snd (get_binance_spot_symbols t reply_binance c)))
              = (symbols, fst (snd (get_binance_spot_symbols t reply_binance c)), [])"
    unfolding get_binance_spot_symbols_def
    using twice [of Binance _ binance_spot_parse reply_binance c next_binance] by blast
  have bybit: "snd (snd (get_bybit_spot_symbols t reply_bybit c)) \<noteq> []
            \<and> spot_fetch bybit_spot_parse reply_bybit = Some symbols \<longrightarrow>
          fst (get_bybit_spot_symbols t reply_bybit c) = symbols
          \<and> get_bybit_spot_symbols t' next_bybit
                (fst (snd (get_bybit_spot_symbols t reply_bybit c)))
              = (symbols, fst (snd (get_bybit_spot_symbols t reply_bybit c)), [])"
    unfolding get_bybit_spot_symbols_def
    using twice [of Bybit _ bybit_spot_parse reply_bybit c next_bybit] by blast
  have bitget: "snd (snd (get_bitget_spot_symbols t reply_bitget c)) \<noteq> []
            \<and> spot_fetch bitget_spot_parse reply_bitget = Some symbols \<longrightarrow>
          fst (get_bitget_spot_symbols t reply_bitget c) = symbols
          \<and> get_bitget_spot_symbols t' next_bitget
                (fst (snd (get_bitget_spot_symbols t reply_bitget c)))
              = (symbols, fst (snd (get_bitget_spot_symbols t reply_bitget c)), [])"
    unfolding get_bitget_spot_symbols_def
    using twice [of Bitget _ bitget_spot_parse reply_bitget c next_bitget] by blast
  have okx: "snd (snd (get_okx_spot_symbols t reply_okx c)) \<noteq> []
            \<and> spot_fetch okx_spot_parse reply_okx = Some symbols \<longrightarrow>
          fst (get_okx_spot_symbols t reply_okx c) = symbols
          \<and> get_okx_spot_symbols t' next_okx
                (fst (snd (get_okx_spot_symbols t reply_okx c)))
              = (symbols, fst (snd (get_okx_spot_symbols t reply_okx c)), [])"
    unfolding get_okx_spot_symbols_def
    using twice [of OKX _ okx_spot_parse reply_okx c next_okx] by blast
  show ?thesis using binance bybit bitget okx by blast
qed

theorem spot_get_within_ttl_of_refresh_witness:
  "{''BTC/USDT:USDT''} \<noteq> ({} :: string set)
   \<and> (1700000010 :: real) - 1700000000 < SPOT_SYMBOL_TTL
   \<and> snd (snd (get_bybit_spot_symbols 1700000000
        (Http 200 (Some \<lparr>bb_retCode = Some 0,
           bb_list = Some [\<lparr>bb_quoteCoin = Some ''USDT'', bb_baseCoin = Some ''BTC''\<rparr>]\<rparr>))
        initial_spot_cache)) \<noteq> []
   \<and> spot_fetch bybit_spot_parse
        (Http 200 (Some \<lparr>bb_retCode = Some 0,
           bb_list = Some [\<lparr>bb_quoteCoin = Some ''USDT'', bb_baseCoin = Some ''BTC''\<rparr>]\<rparr>))
       = Some {''BTC/USDT:USDT''}
   \<and> get_bybit_spot_symbols 1700000010 ConnFailed
        (fst (snd (get_bybit_spot_symbols 1700000000
           (Http 200 (Some \<lparr>bb_retCode = Some 0,
              bb_list = Some [\<lparr>bb_quoteCoin = Some ''USDT'', bb_baseCoin = Some ''BTC''\<rparr>]\<rparr>))
           initial_spot_cache)))
       = ({''BTC/USDT:USDT''},
          fst (snd (get_bybit_spot_symbols 1700000000
           (Http 200 (Some \<lparr>bb_retCode = Some 0,
              bb_list = Some [\<lparr>bb_quoteCoin = Some ''USDT'', bb_baseCoin = Some ''BTC''\<rparr>]\<rparr>))
           initial_spot_cache)),
          [])"
proof -
  have a: "{''BTC/USDT:USDT''} \<noteq> ({} :: string set)" by simp
  have b: "(1700000010 :: real) - 1700000000 < SPOT_SYMBOL_TTL"
    by (simp add: SPOT_SYMBOL_TTL_def)
  have f: "spot_fetch bybit_spot_parse
        (Http 200 (Some \<lparr>bb_retCode = Some 0,
           bb_list = Some [\<lparr>bb_quoteCoin = Some ''USDT'', bb_baseCoin = Some ''BTC''\<rparr>]\<rparr>))
       = Some {''BTC/USDT:USDT''}"
    by (simp add: spot_fetch_def bybit_spot_parse_def ccxt_symbol_def)
  have n: "snd (snd (get_bybit_spot_symbols 1700000000
        (Http 200 (Some \<lparr>bb_retCode = Some 0,
           bb_list = Some [\<lparr>bb_quoteCoin = Some ''USDT'', bb_baseCoin = Some ''BTC''\<rparr>]\<rparr>))
        initial_spot_cache)) \<noteq> []"
    by (simp add: get_bybit_spot_symbols_def spot_symbols_get_def initial_spot_cache_def f)
  show ?thesis
    using a b f n
      spot_get_within_ttl_of_refresh [OF a b,
        where reply_bybit =
           "(Http 200 (Some \<lparr>bb_retCode = Some 0,
              bb_list = Some [\<lparr>bb_quoteCoin = Some ''USDT'', bb_baseCoin = Some ''BTC''\<rparr>]\<rparr>))"
          and c = initial_spot_cache and next_bybit = ConnFailed]
    by blast
qed

text \<open>
  What does hold of claim C6: when the request or the decoding raises, a get call that
  went to the network returns the cached set and changes neither the set nor its
  timestamp.
\<close>

lemma spot_get_exception_keeps_cache:
  assumes "spot_fetch parse reply = None"
  shows "fst (spot_symbols_get ex url parse now reply c) = SPOT_SYMBOL_CACHE c ex
       \<and> fst (snd (spot_symbols_get ex url parse now reply c)) = c"
  using assms by (simp add: spot_symbols_get_def)

text \<open>
  Claim C6. The claim counts a non-success return code among the failures that leave
  the cache alone. In \<open>get_bybit_spot_symbols\<close> (and in the Bitget and OKX functions) the
  return code only guards the loop; the two stores follow the \<open>if\<close> unguarded. A reply
  with \<open>retCode = 10001\<close> to a call whose cache holds one symbol and has just expired
  empties the cache, moves its timestamp to now, and returns the empty set.
\<close>

theorem bybit_spot_error_code_clears_cache:
  "get_bybit_spot_symbols 1700003600
     (Http 200 (Some \<lparr>bb_retCode = Some 10001, bb_list = None\<rparr>))
     \<lparr>SPOT_SYMBOL_CACHE = (\<lambda>_. {})(Bybit := {''BTC/USDT:USDT''}),
      SPOT_SYMBOL_LAST_FETCH = (\<lambda>_. 0)(Bybit := 1700000000)\<rparr>
   = ({},
      \<lparr>SPOT_SYMBOL_CACHE = ((\<lambda>_. {})(Bybit := {''BTC/USDT:USDT''}))(Bybit := {}),
       SPOT_SYMBOL_LAST_FETCH = ((\<lambda>_. 0)(Bybit := 1700000000))(Bybit := 1700003600)\<rparr>,
      [HttpGet ''https://api.bybit.com/v5/market/instruments-info''])"
  by (simp add: get_bybit_spot_symbols_def spot_symbols_get_def spot_fetch_def
        SPOT_SYMBOL_TTL_def bybit_spot_parse_def)

subsection \<open>Dictionaries and keys\<close>

lemma in_update_cases:
  "(a, b) \<in> set (AList.update k v al) \<Longrightarrow> (a = k \<and> b = v) \<or> (a, b) \<in> set al"
  by (induction al) (auto split: if_splits)

lemma keys_update: "fst ` set (AList.update k v al) = insert k (fst ` set al)"
  using dom_update [of k v al] by simp

lemma ccxt_symbol_canonical: "endswith (ccxt_symbol base) ''/USDT:USDT''"
  unfolding ccxt_symbol_def by (rule endswith_append)

lemma bybit_symbol_key_canonical:
  "bybit_symbol_key raw = Some key \<Longrightarrow> endswith key ''/USDT:USDT''"
  by (auto simp: bybit_symbol_key_def ccxt_symbol_canonical split: if_splits)

lemma bitget_symbol_key_canonical:
  "bitget_symbol_key raw = Some key \<Longrightarrow> endswith key ''/USDT:USDT''"
  by (auto simp: bitget_symbol_key_def Let_def ccxt_symbol_canonical split: if_splits)

lemma binance_symbol_key_canonical:
  "binance_symbol_key s = Some key \<Longrightarrow> endswith key ''/USDT:USDT''"
  by (auto simp: binance_symbol_key_def ccxt_symbol_canonical split: option.splits if_splits)

lemma okx_symbol_key_canonical: "endswith (okx_symbol_key inst_id) ''/USDT:USDT''"
  unfolding okx_symbol_key_def by (rule ccxt_symbol_canonical)

subsection \<open>REST collectors: the loops\<close>

lemma bybit_entry_symbol: "bybit_entry key item = Some e \<Longrightarrow> symbol e = key"
  by (auto simp: bybit_entry_def split: option.splits)

lemma bitget_entry_symbol: "bitget_entry key item = Some e \<Longrightarrow> symbol e = key"
  by (auto simp: bitget_entry_def split: option.splits)

lemma bybit_loop_entries:
  assumes "bybit_loop f S items result = Some r"
      and "(k, e) \<in> set r"
  shows "(k, e) \<in> set result
       \<or> (symbol e = k \<and> endswith k ''/USDT:USDT'' \<and> (f \<longrightarrow> k \<in> S))"
  using assms
proof (induction items arbitrary: result)
  case Nil
  then show ?case by simp
next
  case (Cons item items)
  show ?case
  proof (cases "bbt_symbol item")
    case None
    with Cons.prems show ?thesis by simp
  next
    case (Some raw)
    show ?thesis
    proof (cases "bybit_symbol_key raw")
      case None
      with Some Cons show ?thesis by simp
    next
      case key: (Some key)
      show ?thesis
      proof (cases "f \<and> key \<notin> S")
        case True
        with Some key Cons show ?thesis by simp
      next
        case False
        show ?thesis
        proof (cases "bybit_entry key item")
          case None
          with Some key False Cons.prems show ?thesis by (auto split: if_splits)
        next
          case entry: (Some e')
          from Some key False entry Cons.prems(1)
          have "bybit_loop f S items (AList.update key e' result) = Some r"
            by (auto split: if_splits)
          from Cons.IH [OF this Cons.prems(2)]
          show ?thesis
          proof
            assume "(k, e) \<in> set (AList.update key e' result)"
            then have "(k = key \<and> e = e') \<or> (k, e) \<in> set result"
              by (rule in_update_cases)
            then show ?thesis
              using False bybit_entry_symbol [OF entry] bybit_symbol_key_canonical [OF key]
              by auto
          qed simp
        qed
      qed
    qed
  qed
qed

lemma bybit_loop_keys:
  assumes "bybit_loop f S items result = Some r"
  shows "fst ` set r = fst ` set result
           \<union> {key. \<exists>item raw. item \<in> set items \<and> bbt_symbol item = Some raw
                      \<and> bybit_symbol_key raw = Some key \<and> \<not> (f \<and> key \<notin> S)}"
  using assms
proof (induction items arbitrary: result)
  case Nil
  then show ?case by simp
next
  case (Cons item items)
  show ?case
  proof (cases "bbt_symbol item")
    case None
    with Cons.prems show ?thesis by simp
  next
    case (Some raw)
    show ?thesis
    proof (cases "bybit_symbol_key raw")
      case None
      with Some Cons.prems have "bybit_loop f S items result = Some r" by simp
      from Cons.IH [OF this] show ?thesis using Some None by auto
    next
      case key: (Some key)
      show ?thesis
      proof (cases "f \<and> key \<notin> S")
        case True
        with Some key Cons.prems have "bybit_loop f S items result = Some r" by simp
        from Cons.IH [OF this] show ?thesis using Some key True by auto
      next
        case False
        show ?thesis
        proof (cases "bybit_entry key item")
          case None
          with Some key False Cons.prems show ?thesis by (auto split: if_splits)
        next
          case entry: (Some e')
          from Some key False entry Cons.prems
          have "bybit_loop f S items (AList.update key e' result) = Some r"
            by (auto split: if_splits)
          from Cons.IH [OF this] show ?thesis
            using Some key False by (auto simp: keys_update)
        qed
      qed
    qed
  qed
qed

lemma bybit_loop_raises_iff:
  "bybit_loop f S items result = None \<longleftrightarrow> list_ex (bybit_item_raises f S) items"
  by (induction items arbitrary: result)
     (auto simp: bybit_item_raises_def split: option.splits)

lemma bybit_try_raises_iff:
  "bybit_try f S reply = None \<longleftrightarrow> bybit_call_raises f S reply"
  by (auto simp: bybit_try_def bybit_call_raises_def bybit_loop_raises_iff
           split: http.splits option.splits)

lemma bitget_loop_entries:
  assumes "bitget_loop f S items result = Some r"
      and "(k, e) \<in> set r"
  shows "(k, e) \<in> set result
       \<or> (symbol e = k \<and> endswith k ''/USDT:USDT'' \<and> (f \<longrightarrow> k \<in> S))"
  using assms
proof (induction items arbitrary: result)
  case Nil
  then show ?case by simp
next
  case (Cons item items)
  show ?case
  proof (cases "bgt_symbol item")
    case None
    with Cons.prems show ?thesis by simp
  next
    case (Some raw)
    show ?thesis
    proof (cases "bitget_symbol_key raw")
      case None
      with Some Cons show ?thesis by simp
    next
      case key: (Some key)
      show ?thesis
      proof (cases "f \<and> key \<notin> S")
        case True
        with Some key Cons show ?thesis by simp
      next
        case False
        show ?thesis
        proof (cases "bitget_entry key item")
          case None
          with Some key False Cons.prems show ?thesis by (auto split: if_splits)
        next
          case entry: (Some e')
          from Some key False entry Cons.prems(1)
          have "bitget_loop f S items (AList.update key e' result) = Some r"
            by (auto split: if_splits)
          from Cons.IH [OF this Cons.prems(2)]
          show ?thesis
          proof
            assume "(k, e) \<in> set (AList.update key e' result)"
            then have "(k = key \<and> e = e') \<or> (k, e) \<in> set result"
              by (rule in_update_cases)
            then show ?thesis
              using False bitget_entry_symbol [OF entry] bitget_symbol_key_canonical [OF key]
              by auto
          qed simp
        qed
      qed
    qed
  qed
qed

lemma bitget_loop_keys:
  assumes "bitget_loop f S items result = Some r"
  shows "fst ` set r = fst ` set result
           \<union> {key. \<exists>item raw. item \<in> set items \<and> bgt_symbol item = Some raw
                      \<and> bitget_symbol_key raw = Some key \<and> \<not> (f \<and> key \<notin> S)}"
  using assms
proof (induction items arbitrary: result)
  case Nil
  then show ?case by simp
next
  case (Cons item items)
  show ?case
  proof (cases "bgt_symbol item")
    case None
    with Cons.prems show ?thesis by simp
  next
    case (Some raw)
    show ?thesis
    proof (cases "bitget_symbol_key raw")
      case None
      with Some Cons.prems have "bitget_loop f S items result = Some r" by simp
      from Cons.IH [OF this] show ?thesis using Some None by auto
    next
      case key: (Some key)
      show ?thesis
      proof (cases "f \<and> key \<notin> S")
        case True
        with Some key Cons.prems have "bitget_loop f S items result = Some r" by simp
        from Cons.IH [OF this] show ?thesis using Some key True by auto
      next
        case False
        show ?thesis
        proof (cases "bitget_entry key item")
          case None
          with Some key False Cons.prems show ?thesis by (auto split: if_splits)
        next
          case entry: (Some e')
          from Some key False entry Cons.prems
          have "bitget_loop f S items (AList.update key e' result) = Some r"
            by (auto split: if_splits)
          from Cons.IH [OF this] show ?thesis
            using Some key False by (auto simp: keys_update)
        qed
      qed
    qed
  qed
qed

lemma bitget_loop_raises_iff:
  "bitget_loop f S items result = None \<longleftrightarrow> list_ex (bitget_item_raises f S) items"
  by (induction items arbitrary: result)
     (auto simp: bitget_item_raises_def split: option.splits)

lemma bitget_try_raises_iff:
  "bitget_try f S reply = None \<longleftrightarrow> bitget_call_raises f S reply"
  by (auto simp: bitget_try_def bitget_call_raises_def bitget_loop_raises_iff
           split: http.splits option.splits)

subsection \<open>Monitors: what the state and the snapshot loops keep\<close>

lemma mark_price_loop_canonical:
  assumes "\<forall>k \<in> fst ` set d. endswith k ''/USDT:USDT''"
  shows "\<forall>k \<in> fst ` set (mark_price_loop items d). endswith k ''/USDT:USDT''"
  using assms
proof (induction items arbitrary: d)
  case Nil
  then show ?case by simp
next
  case (Cons item items)
  show ?case
  proof (cases "binance_symbol_key (bnw_s item)")
    case None
    with Cons show ?thesis by simp
  next
    case (Some key)
    show ?thesis
    proof (cases "mark_of item")
      case None
      with Some Cons.prems show ?thesis by simp
    next
      case m: (Some m)
      have "\<forall>k \<in> fst ` set (AList.update key m d). endswith k ''/USDT:USDT''"
        using Cons.prems binance_symbol_key_canonical [OF Some] by (simp add: keys_update)
      from Cons.IH [OF this] show ?thesis using Some m by simp
    qed
  qed
qed

lemma binance_on_message_canonical:
  assumes "\<forall>k \<in> fst ` set (mark_data m). endswith k ''/USDT:USDT''"
  shows "\<forall>k \<in> fst ` set (mark_data (binance_on_message msg m)). endswith k ''/USDT:USDT''"
proof (cases msg)
  case (MarkPrice items)
  then show ?thesis using mark_price_loop_canonical [OF assms] by simp
qed (use assms in simp_all)

lemma binance_fold_canonical:
  assumes "\<forall>k \<in> fst ` set (mark_data m). endswith k ''/USDT:USDT''"
  shows "\<forall>k \<in> fst ` set (mark_data (fold binance_on_message msgs m)). endswith k ''/USDT:USDT''"
  using assms
proof (induction msgs arbitrary: m)
  case Nil
  then show ?case by simp
next
  case (Cons msg msgs)
  from Cons.IH [OF binance_on_message_canonical [OF Cons.prems]] show ?case by simp
qed

lemma binance_snapshot_loop_entries:
  assumes "(k, e) \<in> set (binance_snapshot_loop f S tv md snap)"
  shows "(k, e) \<in> set snap \<or> (symbol e = k \<and> k \<in> fst ` set md \<and> (f \<longrightarrow> k \<in> S))"
  using assms
proof (induction md arbitrary: snap)
  case Nil
  then show ?case by simp
next
  case (Cons p md)
  obtain key mk where p: "p = (key, mk)" by (cases p)
  show ?case
  proof (cases "f \<and> key \<notin> S")
    case True
    with Cons p show ?thesis by auto
  next
    case False
    let ?e = "\<lparr>symbol = key, rate = mk_rate mk,
               volume = (case map_of tv key of None \<Rightarrow> 0 | Some v \<Rightarrow> v),
               price = mk_price mk, next_funding = mk_next_funding mk\<rparr>"
    from Cons.prems p False
    have "(k, e) \<in> set (binance_snapshot_loop f S tv md (AList.update key ?e snap))"
      by (auto split: if_splits)
    from Cons.IH [OF this] show ?thesis
    proof
      assume "(k, e) \<in> set (AList.update key ?e snap)"
      then have "(k = key \<and> e = ?e) \<or> (k, e) \<in> set snap" by (rule in_update_cases)
      then show ?thesis using False p by auto
    qed auto
  qed
qed

lemma binance_snapshot_loop_keys:
  "fst ` set (binance_snapshot_loop f S tv md snap)
     = fst ` set snap \<union> {k \<in> fst ` set md. \<not> (f \<and> k \<notin> S)}"
proof (induction md arbitrary: snap)
  case Nil
  then show ?case by simp
next
  case (Cons p md)
  obtain key mk where p: "p = (key, mk)" by (cases p)
  show ?case
  proof (cases "f \<and> key \<notin> S")
    case True
    have step: "binance_snapshot_loop f S tv (p # md) snap = binance_snapshot_loop f S tv md snap"
      using True unfolding p by simp
    have sets: "fst ` set snap \<union> {k \<in> fst ` set md. \<not> (f \<and> k \<notin> S)}
                = fst ` set snap \<union> {k \<in> fst ` set (p # md). \<not> (f \<and> k \<notin> S)}"
      using True unfolding p by auto
    show ?thesis unfolding step Cons.IH by (rule sets)
  next
    case False
    let ?e = "\<lparr>symbol = key, rate = mk_rate mk,
               volume = (case map_of tv key of None \<Rightarrow> 0 | Some v \<Rightarrow> v),
               price = mk_price mk, next_funding = mk_next_funding mk\<rparr>"
    have step: "binance_snapshot_loop f S tv (p # md) snap
                = binance_snapshot_loop f S tv md (AList.update key ?e snap)"
      using False unfolding p by auto
    have sets: "fst ` set (AList.update key ?e snap) \<union> {k \<in> fst ` set md. \<not> (f \<and> k \<notin> S)}
                = fst ` set snap \<union> {k \<in> fst ` set (p # md). \<not> (f \<and> k \<notin> S)}"
      using False unfolding p keys_update by auto
    show ?thesis unfolding step Cons.IH by (rule sets)
  qed
qed

lemma okx_funding_loop_canonical:
  assumes "\<forall>k \<in> fst ` set d. endswith k ''/USDT:USDT''"
  shows "\<forall>k \<in> fst ` set (okx_funding_loop items d). endswith k ''/USDT:USDT''"
  using assms
proof (induction items arbitrary: d)
  case Nil
  then show ?case by simp
next
  case (Cons item items)
  show ?case
  proof (cases "okx_funding_of item")
    case None
    with Cons.prems show ?thesis by simp
  next
    case (Some p)
    obtain key fd where p: "p = (key, fd)" by (cases p)
    have "endswith key ''/USDT:USDT''"
      using Some p okx_symbol_key_canonical
      by (auto simp: okx_funding_of_def split: option.splits)
    then have "\<forall>k \<in> fst ` set (AList.update key fd d). endswith k ''/USDT:USDT''"
      using Cons.prems by (simp add: keys_update)
    from Cons.IH [OF this] show ?thesis using Some p by simp
  qed
qed

lemma okx_on_message_canonical:
  assumes "\<forall>k \<in> fst ` set (funding_data m). endswith k ''/USDT:USDT''"
  shows "\<forall>k \<in> fst ` set (funding_data (okx_on_message msg m)). endswith k ''/USDT:USDT''"
proof (cases msg)
  case (FundingRateMsg items)
  then show ?thesis using okx_funding_loop_canonical [OF assms] by simp
qed (use assms in simp_all)

lemma okx_fold_canonical:
  assumes "\<forall>k \<in> fst ` set (funding_data m). endswith k ''/USDT:USDT''"
  shows "\<forall>k \<in> fst ` set (funding_data (fold okx_on_message msgs m)). endswith k ''/USDT:USDT''"
  using assms
proof (induction msgs arbitrary: m)
  case Nil
  then show ?case by simp
next
  case (Cons msg msgs)
  from Cons.IH [OF okx_on_message_canonical [OF Cons.prems]] show ?case by simp
qed

lemma okx_snapshot_loop_entries:
  assumes "(k, e) \<in> set (okx_snapshot_loop f S td fd snap)"
  shows "(k, e) \<in> set snap \<or> (symbol e = k \<and> k \<in> fst ` set fd \<and> (f \<longrightarrow> k \<in> S))"
  using assms
proof (induction fd arbitrary: snap)
  case Nil
  then show ?case by simp
next
  case (Cons p fd)
  obtain key funding where p: "p = (key, funding)" by (cases p)
  show ?case
  proof (cases "f \<and> key \<notin> S")
    case True
    with Cons p show ?thesis by auto
  next
    case False
    let ?e = "\<lparr>symbol = key, rate = of_rate funding,
               volume = (case map_of td key of None \<Rightarrow> 0 | Some t \<Rightarrow> ot_volume t),
               price = (case map_of td key of None \<Rightarrow> 0 | Some t \<Rightarrow> ot_price t),
               next_funding = of_next_funding funding\<rparr>"
    from Cons.prems p False
    have "(k, e) \<in> set (okx_snapshot_loop f S td fd (AList.update key ?e snap))"
      by (auto split: if_splits)
    from Cons.IH [OF this] show ?thesis
    proof
      assume "(k, e) \<in> set (AList.update key ?e snap)"
      then have "(k = key \<and> e = ?e) \<or> (k, e) \<in> set snap" by (rule in_update_cases)
      then show ?thesis using False p by auto
    qed auto
  qed
qed

lemma okx_snapshot_loop_keys:
  "fst ` set (okx_snapshot_loop f S td fd snap)
     = fst ` set snap \<union> {k \<in> fst ` set fd. \<not> (f \<and> k \<notin> S)}"
proof (induction fd arbitrary: snap)
  case Nil
  then show ?case by simp
next
  case (Cons p fd)
  obtain key funding where p: "p = (key, funding)" by (cases p)
  show ?case
  proof (cases "f \<and> key \<notin> S")
    case True
    have step: "okx_snapshot_loop f S td (p # fd) snap = okx_snapshot_loop f S td fd snap"
      using True unfolding p by simp
    have sets: "fst ` set snap \<union> {k \<in> fst ` set fd. \<not> (f \<and> k \<notin> S)}
                = fst ` set snap \<union> {k \<in> fst ` set (p # fd). \<not> (f \<and> k \<notin> S)}"
      using True unfolding p by auto
    show ?thesis unfolding step Cons.IH by (rule sets)
  next
    case False
    let ?e = "\<lparr>symbol = key, rate = of_rate funding,
               volume = (case map_of td key of None \<Rightarrow> 0 | Some t \<Rightarrow> ot_volume t),
               price = (case map_of td key of None \<Rightarrow> 0 | Some t \<Rightarrow> ot_price t),
               next_funding = of_next_funding funding\<rparr>"
    have step: "okx_snapshot_loop f S td (p # fd) snap
                = okx_snapshot_loop f S td fd (AList.update key ?e snap)"
      using False unfolding p by auto
    have sets: "fst ` set (AList.update key ?e snap) \<union> {k \<in> fst ` set fd. \<not> (f \<and> k \<notin> S)}
                = fst ` set snap \<union> {k \<in> fst ` set (p # fd). \<not> (f \<and> k \<notin> S)}"
      using False unfolding p keys_update by auto
    show ?thesis unfolding step Cons.IH by (rule sets)
  qed
qed

subsection \<open>REST collectors: results and effects\<close>

lemma bybit_result:
  "fst (get_bybit_funding_rates f now spot_reply reply c)
     = (case bybit_try f (if f then fst (get_bybit_spot_symbols now spot_reply c) else {}) reply of
          None \<Rightarrow> [] | Some r \<Rightarrow> r)"
  by (cases f) (simp_all add: get_bybit_funding_rates_def split: prod.splits option.splits)

lemma bybit_effects:
  "snd (snd (get_bybit_funding_rates f now spot_reply reply c))
     = (if f then snd (snd (get_bybit_spot_symbols now spot_reply c)) else [])
       @ [HttpGet ''https://api.bybit.com/v5/market/tickers'']"
  by (cases f) (simp_all add: get_bybit_funding_rates_def split: prod.splits option.splits)

lemma bitget_result:
  "fst (get_bitget_funding_rates f now spot_reply reply c)
     = (case bitget_try f (if f then fst (get_bitget_spot_symbols now spot_reply c) else {}) reply of
          None \<Rightarrow> [] | Some r \<Rightarrow> r)"
  by (cases f) (simp_all add: get_bitget_funding_rates_def split: prod.splits option.splits)

lemma bitget_effects:
  "snd (snd (get_bitget_funding_rates f now spot_reply reply c))
     = (if f then snd (snd (get_bitget_spot_symbols now spot_reply c)) else [])
       @ [HttpGet ''https://api.bitget.com/api/mix/v1/market/tickers'']"
  by (cases f) (simp_all add: get_bitget_funding_rates_def split: prod.splits option.splits)

lemma bybit_not_ok_empty:
  assumes "status \<noteq> 200"
  shows "fst (get_bybit_funding_rates f now spot_reply (Http status body) c) = []"
  unfolding bybit_result using assms by (simp add: bybit_try_def)

lemma bitget_not_ok_empty:
  assumes "status \<noteq> 200"
  shows "fst (get_bitget_funding_rates f now spot_reply (Http status body) c) = []"
  unfolding bitget_result using assms by (simp add: bitget_try_def)

lemma bybit_error_code_empty:
  assumes "bbt_retCode data \<noteq> Some 0"
  shows "fst (get_bybit_funding_rates f now spot_reply (Http status (Some data)) c) = []"
  unfolding bybit_result using assms by (simp add: bybit_try_def)

lemma bitget_error_code_empty:
  assumes "bgt_code data \<noteq> Some ''00000''"
  shows "fst (get_bitget_funding_rates f now spot_reply (Http status (Some data)) c) = []"
  unfolding bitget_result using assms by (simp add: bitget_try_def)

text \<open>
  Claim C7. \<open>get_bybit_funding_rates\<close> and \<open>get_bitget_funding_rates\<close> return a snapshot on
  every input. The snapshot is the empty one whenever the request fails, the status is
  not 200, the body does not decode, the return code is not the success code, or the
  handling of the list or of one of its elements raises. Each call issues the tickers
  request once, after whatever the spot lookup issued, and never again.
\<close>

theorem rest_fetch_error_gives_empty_snapshot:
  "(reply_bybit = ConnFailed
      \<or> (\<exists>status body. reply_bybit = Http status body \<and> status \<noteq> 200)
      \<or> (\<exists>status. reply_bybit = Http status None)
      \<or> (\<exists>status data. reply_bybit = Http status (Some data) \<and> bbt_retCode data \<noteq> Some 0)
      \<or> bybit_call_raises f (if f then fst (get_bybit_spot_symbols now spot_bybit c) else {})
           reply_bybit
      \<longrightarrow> fst (get_bybit_funding_rates f now spot_bybit reply_bybit c) = [])
   \<and> snd (snd (get_bybit_funding_rates f now spot_bybit reply_bybit c))
       = (if f then snd (snd (get_bybit_spot_symbols now spot_bybit c)) else [])
         @ [HttpGet ''https://api.bybit.com/v5/market/tickers'']
   \<and> (reply_bitget = ConnFailed
      \<or> (\<exists>status body. reply_bitget = Http status body \<and> status \<noteq> 200)
      \<or> (\<exists>status. reply_bitget = Http status None)
      \<or> (\<exists>status data. reply_bitget = Http status (Some data)
            \<and> bgt_code data \<noteq> Some ''00000'')
      \<or> bitget_call_raises f (if f then fst (get_bitget_spot_symbols now spot_bitget c) else {})
           reply_bitget
      \<longrightarrow> fst (get_bitget_funding_rates f now spot_bitget reply_bitget c) = [])
   \<and> snd (snd (get_bitget_funding_rates f now spot_bitget reply_bitget c))
       = (if f then snd (snd (get_bitget_spot_symbols now spot_bitget c)) else [])
         @ [HttpGet ''https://api.bitget.com/api/mix/v1/market/tickers'']"
proof -
  let ?Sb = "if f then fst (get_bybit_spot_symbols now spot_bybit c) else {}"
  let ?Sg = "if f then fst (get_bitget_spot_symbols now spot_bitget c) else {}"
  have bybit: "reply_bybit = ConnFailed
      \<or> (\<exists>status body. reply_bybit = Http status body \<and> status \<noteq> 200)
      \<or> (\<exists>status. reply_bybit = Http status None)
      \<or> (\<exists>status data. reply_bybit = Http status (Some data) \<and> bbt_retCode data \<noteq> Some 0)
      \<or> bybit_call_raises f ?Sb reply_bybit
      \<longrightarrow> fst (get_bybit_funding_rates f now spot_bybit reply_bybit c) = []"
  proof
    assume "reply_bybit = ConnFailed
      \<or> (\<exists>status body. reply_bybit = Http status body \<and> status \<noteq> 200)
      \<or> (\<exists>status. reply_bybit = Http status None)
      \<or> (\<exists>status data. reply_bybit = Http status (Some data) \<and> bbt_retCode data \<noteq> Some 0)
      \<or> bybit_call_raises f ?Sb reply_bybit"
    then consider
        (failed) "reply_bybit = ConnFailed"
      | (status) status body where "reply_bybit = Http status body" and "status \<noteq> 200"
      | (undecoded) status where "reply_bybit = Http status None"
      | (code) status data where "reply_bybit = Http status (Some data)"
          and "bbt_retCode data \<noteq> Some 0"
      | (raises) "bybit_call_raises f ?Sb reply_bybit"
      by blast
    then show "fst (get_bybit_funding_rates f now spot_bybit reply_bybit c) = []"
    proof cases
      case failed
      then show ?thesis unfolding bybit_result by (simp add: bybit_try_def)
    next
      case status
      then show ?thesis using bybit_not_ok_empty [of status] by simp
    next
      case undecoded
      then show ?thesis unfolding bybit_result by (simp add: bybit_try_def)
    next
      case code
      then show ?thesis using bybit_error_code_empty [of data] by simp
    next
      case raises
      then have "bybit_try f ?Sb reply_bybit = None"
        by (simp only: bybit_try_raises_iff)
      then show ?thesis unfolding bybit_result by simp
    qed
  qed
  have bitget: "reply_bitget = ConnFailed
      \<or> (\<exists>status body. reply_bitget = Http status body \<and> status \<noteq> 200)
      \<or> (\<exists>status. reply_bitget = Http status None)
      \<or> (\<exists>status data. reply_bitget = Http status (Some data) \<and> bgt_code data \<noteq> Some ''00000'')
      \<or> bitget_call_raises f ?Sg reply_bitget
      \<longrightarrow> fst (get_bitget_funding_rates f now spot_bitget reply_bitget c) = []"
  proof
    assume "reply_bitget = ConnFailed
      \<or> (\<exists>status body. reply_bitget = Http status body \<and> status \<noteq> 200)
      \<or> (\<exists>status. reply_bitget = Http status None)
      \<or> (\<exists>status data. reply_bitget = Http status (Some data) \<and> bgt_code data \<noteq> Some ''00000'')
      \<or> bitget_call_raises f ?Sg reply_bitget"
    then consider
        (failed) "reply_bitget = ConnFailed"
      | (status) status body where "reply_bitget = Http status body" and "status \<noteq> 200"
      | (undecoded) status where "reply_bitget = Http status None"
      | (code) status data where "reply_bitget = Http status (Some data)"
          and "bgt_code data \<noteq> Some ''00000''"
      | (raises) "bitget_call_raises f ?Sg reply_bitget"
      by blast
    then show "fst (get_bitget_funding_rates f now spot_bitget reply_bitget c) = []"
    proof cases
      case failed
      then show ?thesis unfolding bitget_result by (simp add: bitget_try_def)
    next
      case status
      then show ?thesis using bitget_not_ok_empty [of status] by simp
    next
      case undecoded
      then show ?thesis unfolding bitget_result by (simp add: bitget_try_def)
    next
      case code
      then show ?thesis using bitget_error_code_empty [of data] by simp
    next
      case raises
      then have "bitget_try f ?Sg reply_bitget = None"
        by (simp only: bitget_try_raises_iff)
      then show ?thesis unfolding bitget_result by simp
    qed
  qed
  show ?thesis
    by (intro conjI) (rule bybit, rule bybit_effects, rule bitget, rule bitget_effects)
qed

theorem rest_fetch_error_gives_empty_snapshot_witness:
  "bybit_call_raises False {}
     (Http 200 (Some \<lparr>bbt_retCode = Some 0, bbt_list = Some
        [\<lparr>bbt_symbol = Some ''BTCUSDT'', bbt_fundingRate = Present (1 / 10000),
          bbt_turnover24h = Present 5000000, bbt_lastPrice = Present 65000,
          bbt_nextFundingTime = Present 1700006400000\<rparr>,
         \<lparr>bbt_symbol = Some ''ETHUSDT'', bbt_fundingRate = Malformed,
          bbt_turnover24h = Present 3000000, bbt_lastPrice = Present 3000,
          bbt_nextFundingTime = Present 1700006400000\<rparr>]\<rparr>))
   \<and> get_bybit_funding_rates False 1700000000 ConnFailed
       (Http 200 (Some \<lparr>bbt_retCode = Some 0, bbt_list = Some
        [\<lparr>bbt_symbol = Some ''BTCUSDT'', bbt_fundingRate = Present (1 / 10000),
          bbt_turnover24h = Present 5000000, bbt_lastPrice = Present 65000,
          bbt_nextFundingTime = Present 1700006400000\<rparr>,
         \<lparr>bbt_symbol = Some ''ETHUSDT'', bbt_fundingRate = Malformed,
          bbt_turnover24h = Present 3000000, bbt_lastPrice = Present 3000,
          bbt_nextFundingTime = Present 1700006400000\<rparr>]\<rparr>))
       initial_spot_cache
     = ([], initial_spot_cache, [HttpGet ''https://api.bybit.com/v5/market/tickers''])
   \<and> (500 :: nat) \<noteq> 200
   \<and> get_bitget_funding_rates False 1700000000 ConnFailed
       (Http 500 (Some \<lparr>bgt_code = Some ''00000'', bgt_data = Some
          [\<lparr>bgt_symbol = Some ''BTCUSDT_UMCBL'', bgt_fundingRate = Present (1 / 10000),
            bgt_quoteVolume = Present 5000000, bgt_last = Present 65000\<rparr>]\<rparr>))
       initial_spot_cache
     = ([], initial_spot_cache, [HttpGet ''https://api.bitget.com/api/mix/v1/market/tickers''])"
  using rest_fetch_error_gives_empty_snapshot
    [of "(Http 200 (Some \<lparr>bbt_retCode = Some 0, bbt_list = Some
        [\<lparr>bbt_symbol = Some ''BTCUSDT'', bbt_fundingRate = Present (1 / 10000),
          bbt_turnover24h = Present 5000000, bbt_lastPrice = Present 65000,
          bbt_nextFundingTime = Present 1700006400000\<rparr>,
         \<lparr>bbt_symbol = Some ''ETHUSDT'', bbt_fundingRate = Malformed,
          bbt_turnover24h = Present 3000000, bbt_lastPrice = Present 3000,
          bbt_nextFundingTime = Present 1700006400000\<rparr>]\<rparr>))"
        False 1700000000 ConnFailed initial_spot_cache
        "(Http 500 (Some \<lparr>bgt_code = Some ''00000'', bgt_data = Some
          [\<lparr>bgt_symbol = Some ''BTCUSDT_UMCBL'', bgt_fundingRate = Present (1 / 10000),
            bgt_quoteVolume = Present 5000000, bgt_last = Present 65000\<rparr>]\<rparr>))"
        ConnFailed]
  by (simp add: bybit_call_raises_def bybit_item_raises_def bybit_symbol_key_def
        bybit_entry_def endswith_def strip4_def ccxt_symbol_def
        get_bybit_funding_rates_def bybit_try_def get_bitget_funding_rates_def bitget_try_def)

subsection \<open>The spot filter\<close>

lemma bybit_filtered_keys:
  "fst ` set (fst (get_bybit_funding_rates True now spot_reply reply c))
     \<subseteq> fst (get_bybit_spot_symbols now spot_reply c)"
proof
  fix k
  assume "k \<in> fst ` set (fst (get_bybit_funding_rates True now spot_reply reply c))"
  then obtain e where
    ke: "(k, e) \<in> set (fst (get_bybit_funding_rates True now spot_reply reply c))"
    by auto
  let ?S = "fst (get_bybit_spot_symbols now spot_reply c)"
  from ke have "\<exists>r. bybit_try True ?S reply = Some r \<and> (k, e) \<in> set r"
    unfolding bybit_result by (cases "bybit_try True ?S reply") simp_all
  then obtain r where r: "bybit_try True ?S reply = Some r" and m: "(k, e) \<in> set r"
    by blast
  from r obtain items where "bybit_loop True ?S items [] = Some r \<or> r = []"
    by (auto simp: bybit_try_def split: http.splits option.splits if_splits)
  with m have "bybit_loop True ?S items [] = Some r" by auto
  from bybit_loop_entries [OF this m] show "k \<in> ?S" by simp
qed

lemma bybit_unfiltered_keys:
  assumes "\<not> bybit_call_raises False {} reply"
      and "reply = Http 200 (Some data)"
      and "bbt_retCode data = Some 0"
      and "bbt_list data = Some items"
  shows "fst ` set (fst (get_bybit_funding_rates False now spot_reply reply c))
           = {key. \<exists>item raw. item \<in> set items \<and> bbt_symbol item = Some raw
                     \<and> bybit_symbol_key raw = Some key}"
proof -
  from assms(1) obtain r where r: "bybit_try False {} reply = Some r"
    unfolding bybit_try_raises_iff [symmetric] by auto
  then have "bybit_loop False {} items [] = Some r"
    using assms(2-4) by (simp add: bybit_try_def)
  from bybit_loop_keys [OF this] show ?thesis
    unfolding bybit_result using r by simp
qed

lemma bitget_filtered_keys:
  "fst ` set (fst (get_bitget_funding_rates True now spot_reply reply c))
     \<subseteq> fst (get_bitget_spot_symbols now spot_reply c)"
proof
  fix k
  assume "k \<in> fst ` set (fst (get_bitget_funding_rates True now spot_reply reply c))"
  then obtain e where
    ke: "(k, e) \<in> set (fst (get_bitget_funding_rates True now spot_reply reply c))"
    by auto
  let ?S = "fst (get_bitget_spot_symbols now spot_reply c)"
  from ke have "\<exists>r. bitget_try True ?S reply = Some r \<and> (k, e) \<in> set r"
    unfolding bitget_result by (cases "bitget_try True ?S reply") simp_all
  then obtain r where r: "bitget_try True ?S reply = Some r" and m: "(k, e) \<in> set r"
    by blast
  from r obtain items where "bitget_loop True ?S items [] = Some r \<or> r = []"
    by (auto simp: bitget_try_def split: http.splits option.splits if_splits)
  with m have "bitget_loop True ?S items [] = Some r" by auto
  from bitget_loop_entries [OF this m] show "k \<in> ?S" by simp
qed

lemma bitget_unfiltered_keys:
  assumes "\<not> bitget_call_raises False {} reply"
      and "reply = Http 200 (Some data)"
      and "bgt_code data = Some ''00000''"
      and "bgt_data data = Some items"
  shows "fst ` set (fst (get_bitget_funding_rates False now spot_reply reply c))
           = {key. \<exists>item raw. item \<in> set items \<and> bgt_symbol item = Some raw
                     \<and> bitget_symbol_key raw = Some key}"
proof -
  from assms(1) obtain r where r: "bitget_try False {} reply = Some r"
    unfolding bitget_try_raises_iff [symmetric] by auto
  then have "bitget_loop False {} items [] = Some r"
    using assms(2-4) by (simp add: bitget_try_def)
  from bitget_loop_keys [OF this] show ?thesis
    unfolding bitget_result using r by simp
qed

lemma binance_snapshot_keys:
  "fst ` set (fst (binance_get_snapshot f now spot_reply arrivals c m))
     = {k \<in> fst ` set (mark_data (fst (snd (binance_get_snapshot f now spot_reply arrivals c m)))).
          \<not> (f \<and> k \<notin> (if f then fst (get_binance_spot_symbols now spot_reply c) else {}))}"
  by (cases f)
     (simp_all add: binance_get_snapshot_def Let_def binance_snapshot_loop_keys
        split: prod.splits)

lemma okx_snapshot_keys:
  "fst ` set (fst (okx_get_snapshot f now spot_reply during_sleep during_fetch c m))
     = {k \<in> fst ` set (funding_data
                (fst (snd (okx_get_snapshot f now spot_reply during_sleep during_fetch c m)))).
          \<not> (f \<and> k \<notin> (if f then fst (get_okx_spot_symbols now spot_reply c) else {}))}"
  by (cases f)
     (simp_all add: okx_get_snapshot_def Let_def okx_snapshot_loop_keys
        split: prod.splits)
text \<open>
  The monitors with the filter disabled: the snapshot has a key for every instrument of
  the state it is built from. The Binance call is never suspended then, so that state
  is the state at the call; the OKX call builds from the state at the call, or, on a
  cold start, from the state the frames handled during the sleep have left.
\<close>

lemma binance_unfiltered_keys:
  "fst ` set (fst (binance_get_snapshot False now spot_reply arrivals c m))
     = fst ` set (mark_data m)"
  by (simp add: binance_get_snapshot_def Let_def binance_snapshot_loop_keys)

lemma okx_unfiltered_keys:
  "fst ` set (fst (okx_get_snapshot False now spot_reply during_sleep during_fetch c m))
     = fst ` set (funding_data
         (if funding_data m = [] then fold okx_on_message during_sleep (m\<lparr>okx_task := True\<rparr>)
          else m))"
  by (simp add: okx_get_snapshot_def Let_def okx_snapshot_loop_keys)

lemma binance_filtered_keys:
  "fst ` set (fst (binance_get_snapshot True now spot_reply arrivals c m))
     \<subseteq> fst (get_binance_spot_symbols now spot_reply c)"
  unfolding binance_snapshot_keys by auto

lemma okx_filtered_keys:
  "fst ` set (fst (okx_get_snapshot True now spot_reply during_sleep during_fetch c m))
     \<subseteq> fst (get_okx_spot_symbols now spot_reply c)"
  unfolding okx_snapshot_keys by auto

text \<open>
  Claim C1. The first half holds: with the filter enabled every key of a snapshot is in
  the spot set obtained in that call (\<open>bybit_filtered_keys\<close>, \<open>bitget_filtered_keys\<close>,
  \<open>binance_filtered_keys\<close>, \<open>okx_filtered_keys\<close>). The second half asks that with the filter
  disabled every successfully parsed instrument appears. In \<open>get_bybit_funding_rates\<close> (and
  in \<open>get_bitget_funding_rates\<close>) one \<open>try\<close> encloses the whole loop: the reply below
  lists \<open>BTCUSDT\<close>, which parses and alone would be returned, and then \<open>ETHUSDT\<close> with a
  funding rate that \<open>float()\<close> rejects; the exception discards the entry already built
  and the call returns the empty snapshot.
\<close>

theorem bybit_malformed_element_drops_parsed_instrument:
  "bybit_entry ''BTC/USDT:USDT''
     \<lparr>bbt_symbol = Some ''BTCUSDT'', bbt_fundingRate = Present (1 / 10000),
      bbt_turnover24h = Present 5000000, bbt_lastPrice = Present 65000,
      bbt_nextFundingTime = Present 1700006400000\<rparr>
     = Some \<lparr>symbol = ''BTC/USDT:USDT'', rate = 1 / 100, volume = 5000000, price = 65000,
             next_funding = 1700006400000\<rparr>
   \<and> fst (get_bybit_funding_rates False 1700000000 ConnFailed
       (Http 200 (Some \<lparr>bbt_retCode = Some 0, bbt_list = Some
        [\<lparr>bbt_symbol = Some ''BTCUSDT'', bbt_fundingRate = Present (1 / 10000),
          bbt_turnover24h = Present 5000000, bbt_lastPrice = Present 65000,
          bbt_nextFundingTime = Present 1700006400000\<rparr>]\<rparr>))
       initial_spot_cache)
     = [(''BTC/USDT:USDT'',
         \<lparr>symbol = ''BTC/USDT:USDT'', rate = 1 / 100, volume = 5000000, price = 65000,
          next_funding = 1700006400000\<rparr>)]
   \<and> fst (get_bybit_funding_rates False 1700000000 ConnFailed
       (Http 200 (Some \<lparr>bbt_retCode = Some 0, bbt_list = Some
        [\<lparr>bbt_symbol = Some ''BTCUSDT'', bbt_fundingRate = Present (1 / 10000),
          bbt_turnover24h = Present 5000000, bbt_lastPrice = Present 65000,
          bbt_nextFundingTime = Present 1700006400000\<rparr>,
         \<lparr>bbt_symbol = Some ''ETHUSDT'', bbt_fundingRate = Malformed,
          bbt_turnover24h = Present 3000000, bbt_lastPrice = Present 3000,
          bbt_nextFundingTime = Present 1700006400000\<rparr>]\<rparr>))
       initial_spot_cache)
     = []"
  by (simp add: bybit_symbol_key_def bybit_entry_def endswith_def strip4_def ccxt_symbol_def
        get_bybit_funding_rates_def bybit_try_def)

subsection \<open>Shape of the snapshots\<close>

lemma bybit_snapshot_canonical:
  assumes "(k, e) \<in> set (fst (get_bybit_funding_rates f now spot_reply reply c))"
  shows "symbol e = k \<and> endswith k ''/USDT:USDT''"
proof -
  let ?S = "if f then fst (get_bybit_spot_symbols now spot_reply c) else {}"
  from assms have "\<exists>r. bybit_try f ?S reply = Some r \<and> (k, e) \<in> set r"
    unfolding bybit_result by (cases "bybit_try f ?S reply") simp_all
  then obtain r where r: "bybit_try f ?S reply = Some r" and m: "(k, e) \<in> set r"
    by blast
  from r obtain items where "bybit_loop f ?S items [] = Some r \<or> r = []"
    by (auto simp: bybit_try_def split: http.splits option.splits if_splits)
  with m have "bybit_loop f ?S items [] = Some r" by auto
  from bybit_loop_entries [OF this m] show ?thesis by simp
qed

lemma bitget_snapshot_canonical:
  assumes "(k, e) \<in> set (fst (get_bitget_funding_rates f now spot_reply reply c))"
  shows "symbol e = k \<and> endswith k ''/USDT:USDT''"
proof -
  let ?S = "if f then fst (get_bitget_spot_symbols now spot_reply c) else {}"
  from assms have "\<exists>r. bitget_try f ?S reply = Some r \<and> (k, e) \<in> set r"
    unfolding bitget_result by (cases "bitget_try f ?S reply") simp_all
  then obtain r where r: "bitget_try f ?S reply = Some r" and m: "(k, e) \<in> set r"
    by blast
  from r obtain items where "bitget_loop f ?S items [] = Some r \<or> r = []"
    by (auto simp: bitget_try_def split: http.splits option.splits if_splits)
  with m have "bitget_loop f ?S items [] = Some r" by auto
  from bitget_loop_entries [OF this m] show ?thesis by simp
qed

lemma binance_snapshot_canonical:
  assumes inv: "\<forall>k \<in> fst ` set (mark_data m). endswith k ''/USDT:USDT''"
      and mem: "(k, e) \<in> set (fst (binance_get_snapshot f now spot_reply arrivals c m))"
  shows "symbol e = k \<and> endswith k ''/USDT:USDT''"
proof -
  let ?m2 = "fst (snd (binance_get_snapshot f now spot_reply arrivals c m))"
  obtain S c' fx where
    spot: "(if f then get_binance_spot_symbols now spot_reply c else ({}, c, [])) = (S, c', fx)"
    by (cases "if f then get_binance_spot_symbols now spot_reply c else ({}, c, [])") blast
  have i1: "\<forall>k \<in> fst ` set (mark_data (m\<lparr>task := True\<rparr>)). endswith k ''/USDT:USDT''"
    using inv by simp
  have m2: "?m2 = (if fx = [] then m\<lparr>task := True\<rparr>
                  else fold binance_on_message arrivals (m\<lparr>task := True\<rparr>))"
    unfolding binance_get_snapshot_def Let_def spot by simp
  have inv2: "\<forall>k \<in> fst ` set (mark_data ?m2). endswith k ''/USDT:USDT''"
    unfolding m2 using i1 binance_fold_canonical [OF i1, of arrivals]
    by (cases "fx = []") simp_all
  have "fst (binance_get_snapshot f now spot_reply arrivals c m)
       = binance_snapshot_loop f S (ticker_volume ?m2) (mark_data ?m2) []"
    unfolding binance_get_snapshot_def Let_def spot by simp
  with mem have "(k, e) \<in> set (binance_snapshot_loop f S (ticker_volume ?m2) (mark_data ?m2) [])"
    by simp
  from binance_snapshot_loop_entries [OF this] inv2 show ?thesis by auto
qed

lemma okx_snapshot_canonical:
  assumes inv: "\<forall>k \<in> fst ` set (funding_data m). endswith k ''/USDT:USDT''"
      and mem: "(k, e) \<in> set (fst (okx_get_snapshot f now spot_reply during_sleep during_fetch c m))"
  shows "symbol e = k \<and> endswith k ''/USDT:USDT''"
proof -
  let ?m3 = "fst (snd (okx_get_snapshot f now spot_reply during_sleep during_fetch c m))"
  let ?m1 = "m\<lparr>okx_task := True\<rparr>"
  have i1: "\<forall>k \<in> fst ` set (funding_data ?m1). endswith k ''/USDT:USDT''"
    using inv by simp
  have i2: "\<forall>k \<in> fst ` set (funding_data (fold okx_on_message during_sleep ?m1)).
              endswith k ''/USDT:USDT''"
    by (rule okx_fold_canonical [OF i1])
  obtain S c' fx2 where
    spot: "(if f then get_okx_spot_symbols now spot_reply c else ({}, c, [])) = (S, c', fx2)"
    by (cases "if f then get_okx_spot_symbols now spot_reply c else ({}, c, [])") blast
  define m2 where
    "m2 = (if funding_data ?m1 = [] then fold okx_on_message during_sleep ?m1 else ?m1)"
  have inv2: "\<forall>k \<in> fst ` set (funding_data m2). endswith k ''/USDT:USDT''"
    unfolding m2_def using i1 i2 by (cases "funding_data ?m1 = []") simp_all
  have m3: "?m3 = (if fx2 = [] then m2 else fold okx_on_message during_fetch m2)"
    unfolding okx_get_snapshot_def Let_def spot m2_def
    by (cases "funding_data (m\<lparr>okx_task := True\<rparr>) = []") simp_all
  have inv3: "\<forall>k \<in> fst ` set (funding_data ?m3). endswith k ''/USDT:USDT''"
    unfolding m3 using inv2 okx_fold_canonical [OF inv2, of during_fetch]
    by (cases "fx2 = []") simp_all
  have "fst (okx_get_snapshot f now spot_reply during_sleep during_fetch c m)
       = okx_snapshot_loop f S (ticker_data ?m3) (funding_data ?m3) []"
    unfolding okx_get_snapshot_def Let_def spot by simp
  with mem have "(k, e) \<in> set (okx_snapshot_loop f S (ticker_data ?m3) (funding_data ?m3) [])"
    by simp
  from okx_snapshot_loop_entries [OF this] inv3 show ?thesis by auto
qed

text \<open>
  Claim C10. In the snapshot any of the four collectors returns, each entry's \<open>symbol\<close>
  field equals the key it is stored under, and the key ends in \<open>/USDT:USDT\<close>. For the
  monitors this holds in every state reached from a new monitor by handling frames.
\<close>

theorem snapshot_keys_canonical:
  "(\<forall>(k, e) \<in> set (fst (get_bybit_funding_rates f now spot_bybit reply_bybit c)).
       symbol e = k \<and> endswith k ''/USDT:USDT'')
   \<and> (\<forall>(k, e) \<in> set (fst (get_bitget_funding_rates f now spot_bitget reply_bitget c)).
       symbol e = k \<and> endswith k ''/USDT:USDT'')
   \<and> (\<forall>(k, e) \<in> set (fst (binance_get_snapshot f now spot_binance arrivals c
                          (fold binance_on_message frames_binance new_binance_monitor))).
       symbol e = k \<and> endswith k ''/USDT:USDT'')
   \<and> (\<forall>(k, e) \<in> set (fst (okx_get_snapshot f now spot_okx during_sleep during_fetch c
                          (fold okx_on_message frames_okx new_okx_monitor))).
       symbol e = k \<and> endswith k ''/USDT:USDT'')"
proof -
  have b0: "\<forall>k \<in> fst ` set (mark_data new_binance_monitor). endswith k ''/USDT:USDT''"
    by (simp add: new_binance_monitor_def)
  have o0: "\<forall>k \<in> fst ` set (funding_data new_okx_monitor). endswith k ''/USDT:USDT''"
    by (simp add: new_okx_monitor_def)
  note b = binance_snapshot_canonical [OF binance_fold_canonical [OF b0, of frames_binance]]
  note ok = okx_snapshot_canonical [OF okx_fold_canonical [OF o0, of frames_okx]]
  show ?thesis
    using bybit_snapshot_canonical [of _ _ f now spot_bybit reply_bybit c]
      bitget_snapshot_canonical [of _ _ f now spot_bitget reply_bitget c]
      b [of _ _ f now spot_binance arrivals c]
      ok [of _ _ f now spot_okx during_sleep during_fetch c]
    by blast
qed

theorem snapshot_keys_canonical_witness:
  "fst (binance_get_snapshot False 1700000000 ConnFailed [] initial_spot_cache
          (fold binance_on_message
             [MarkPrice [\<lparr>bnw_s = Some ''BTCUSDT'', bnw_r = Present (5 / 10000),
                          bnw_p = Present 65000, bnw_T = Present 1700006400000\<rparr>]]
             new_binance_monitor))
     = [(''BTC/USDT:USDT'',
         \<lparr>symbol = ''BTC/USDT:USDT'', rate = 5 / 100, volume = 0, price = 65000,
          next_funding = 1700006400000\<rparr>)]
   \<and> symbol \<lparr>symbol = ''BTC/USDT:USDT'', rate = 5 / 100, volume = 0, price = 65000,
              next_funding = 1700006400000\<rparr> = ''BTC/USDT:USDT''
   \<and> endswith ''BTC/USDT:USDT'' ''/USDT:USDT''"
  using snapshot_keys_canonical
    [where f = False and now = 1700000000 and spot_binance = ConnFailed and arrivals = "[]"
       and c = initial_spot_cache
       and frames_binance =
         "[MarkPrice [\<lparr>bnw_s = Some ''BTCUSDT'', bnw_r = Present (5 / 10000),
                       bnw_p = Present 65000, bnw_T = Present 1700006400000\<rparr>]]"]
  by (simp add: binance_get_snapshot_def new_binance_monitor_def binance_symbol_key_def
        mark_of_def endswith_def strip4_def ccxt_symbol_def)

subsection \<open>Cold start of the monitors\<close>

text \<open>
  What \<open>OKXWebSocketMonitor.get_snapshot\<close> does on a cold start: with no funding data
  in the state, the first effect of the call is the three-second sleep, and the snapshot
  is built from the state as the frames handled during the sleep (and during the spot
  request, if one is made) have left it.
\<close>

lemma okx_cold_start_sleeps:
  assumes "funding_data m = []"
  shows "\<exists>fx. snd (snd (snd (okx_get_snapshot f now spot_reply during_sleep during_fetch c m)))
              = Sleep 3 # fx"
  using assms by (cases f) (simp_all add: okx_get_snapshot_def Let_def split: prod.splits)

lemma okx_cold_start_uses_arrivals:
  assumes "funding_data m = []"
  shows "fst (okx_get_snapshot False now spot_reply during_sleep during_fetch c m)
           = okx_snapshot_loop False {}
               (ticker_data (fold okx_on_message during_sleep (m\<lparr>okx_task := True\<rparr>)))
               (funding_data (fold okx_on_message during_sleep (m\<lparr>okx_task := True\<rparr>))) []"
  using assms by (simp add: okx_get_snapshot_def Let_def)

lemma okx_warm_start_no_sleep:
  assumes "funding_data m \<noteq> []"
  shows "Sleep d \<notin> set (snd (snd (snd
           (okx_get_snapshot f now spot_reply during_sleep during_fetch c m))))"
  using assms
  by (cases f)
     (auto simp: okx_get_snapshot_def Let_def get_okx_spot_symbols_def spot_symbols_get_def
           split: prod.splits option.splits if_splits)

lemma binance_never_sleeps:
  "Sleep d \<notin> set (snd (snd (snd (binance_get_snapshot f now spot_reply arrivals c m))))"
  by (cases f)
     (auto simp: binance_get_snapshot_def Let_def get_binance_spot_symbols_def
           spot_symbols_get_def split: prod.splits option.splits if_splits)

text \<open>
  Claim C9. The claim asks both monitors to wait for a grace period when no streamed
  data has arrived. \<open>OKXWebSocketMonitor.get_snapshot\<close> does (\<open>okx_cold_start_sleeps\<close>);
  \<open>BinanceWebSocketMonitor.get_snapshot\<close> has no wait at all: on a new monitor, with the
  filter disabled, it performs no effect and returns the empty snapshot at once.
\<close>

theorem binance_cold_start_returns_empty_at_once:
  "binance_get_snapshot False 1700000000 ConnFailed
     [MarkPrice [\<lparr>bnw_s = Some ''BTCUSDT'', bnw_r = Present (5 / 10000),
                  bnw_p = Present 65000, bnw_T = Present 1700006400000\<rparr>]]
     initial_spot_cache new_binance_monitor
   = ([], new_binance_monitor\<lparr>task := True\<rparr>, initial_spot_cache, [])"
  by (simp add: binance_get_snapshot_def new_binance_monitor_def)

subsection \<open>Aggregator\<close>

lemma get_all_funding_rates_eq:
  "get_all_funding_rates cs requested f
     = filter (\<lambda>(exch, _). exch \<in> set requested)
         [(''bybit'', run_bybit cs f), (''binance'', run_binance cs f),
          (''bitget'', run_bitget cs f), (''okx'', run_okx cs f)]"
  by (cases "''bybit'' \<in> set requested"; cases "''binance'' \<in> set requested";
      cases "''bitget'' \<in> set requested"; cases "''okx'' \<in> set requested")
     (simp_all add: get_all_funding_rates_def)
text \<open>
  Claim C2. \<open>get_all_funding_rates\<close> returns, in the order Bybit, Binance, Bitget, OKX,
  one entry for each of these that is requested, holding what that exchange's collector
  returned; an identifier that is not one of the four has no entry. Replacing one
  collector by one that returns the empty snapshot changes no other exchange's entry.
\<close>

theorem aggregator_pure_join:
  "get_all_funding_rates cs requested f
     = filter (\<lambda>(exch, _). exch \<in> set requested)
         [(''bybit'', run_bybit cs f), (''binance'', run_binance cs f),
          (''bitget'', run_bitget cs f), (''okx'', run_okx cs f)]
   \<and> map_of (get_all_funding_rates cs requested f) ''bybit''
       = (if ''bybit'' \<in> set requested then Some (run_bybit cs f) else None)
   \<and> map_of (get_all_funding_rates cs requested f) ''binance''
       = (if ''binance'' \<in> set requested then Some (run_binance cs f) else None)
   \<and> map_of (get_all_funding_rates cs requested f) ''bitget''
       = (if ''bitget'' \<in> set requested then Some (run_bitget cs f) else None)
   \<and> map_of (get_all_funding_rates cs requested f) ''okx''
       = (if ''okx'' \<in> set requested then Some (run_okx cs f) else None)
   \<and> (exch \<notin> {''bybit'', ''binance'', ''bitget'', ''okx''}
        \<longrightarrow> map_of (get_all_funding_rates cs requested f) exch = None)
   \<and> (exch \<noteq> ''bybit''
        \<longrightarrow> map_of (get_all_funding_rates (cs\<lparr>run_bybit := \<lambda>_. []\<rparr>) requested f) exch
            = map_of (get_all_funding_rates cs requested f) exch)
   \<and> (exch \<noteq> ''binance''
        \<longrightarrow> map_of (get_all_funding_rates (cs\<lparr>run_binance := \<lambda>_. []\<rparr>) requested f) exch
            = map_of (get_all_funding_rates cs requested f) exch)
   \<and> (exch \<noteq> ''bitget''
        \<longrightarrow> map_of (get_all_funding_rates (cs\<lparr>run_bitget := \<lambda>_. []\<rparr>) requested f) exch
            = map_of (get_all_funding_rates cs requested f) exch)
   \<and> (exch \<noteq> ''okx''
        \<longrightarrow> map_of (get_all_funding_rates (cs\<lparr>run_okx := \<lambda>_. []\<rparr>) requested f) exch
            = map_of (get_all_funding_rates cs requested f) exch)"
  unfolding get_all_funding_rates_eq
  by (cases "''bybit'' \<in> set requested"; cases "''binance'' \<in> set requested";
      cases "''bitget'' \<in> set requested"; cases "''okx'' \<in> set requested")
     simp_all

theorem aggregator_pure_join_witness:
  "''okx'' \<noteq> ''bitget''
   \<and> get_all_funding_rates
        \<lparr>run_bybit = (\<lambda>_. [(''BTC/USDT:USDT'',
            \<lparr>symbol = ''BTC/USDT:USDT'', rate = 1 / 100, volume = 5000000, price = 65000,
             next_funding = 1700006400000\<rparr>)]),
         run_binance = (\<lambda>_. [(''ETH/USDT:USDT'',
            \<lparr>symbol = ''ETH/USDT:USDT'', rate = - (2 / 100), volume = 3000000, price = 3000,
             next_funding = 1700006400000\<rparr>)]),
         run_bitget = (\<lambda>_. []),
         run_okx = (\<lambda>_. [(''SOL/USDT:USDT'',
            \<lparr>symbol = ''SOL/USDT:USDT'', rate = 3 / 100, volume = 1000000, price = 150,
             next_funding = 1700006400000\<rparr>)])\<rparr>
        [''bybit'', ''binance'', ''bitget'', ''okx''] True
     = [(''bybit'', [(''BTC/USDT:USDT'',
            \<lparr>symbol = ''BTC/USDT:USDT'', rate = 1 / 100, volume = 5000000, price = 65000,
             next_funding = 1700006400000\<rparr>)]),
        (''binance'', [(''ETH/USDT:USDT'',
            \<lparr>symbol = ''ETH/USDT:USDT'', rate = - (2 / 100), volume = 3000000, price = 3000,
             next_funding = 1700006400000\<rparr>)]),
        (''bitget'', []),
        (''okx'', [(''SOL/USDT:USDT'',
            \<lparr>symbol = ''SOL/USDT:USDT'', rate = 3 / 100, volume = 1000000, price = 150,
             next_funding = 1700006400000\<rparr>)])]"
  using aggregator_pure_join
    [of "\<lparr>run_bybit = (\<lambda>_. [(''BTC/USDT:USDT'',
            \<lparr>symbol = ''BTC/USDT:USDT'', rate = 1 / 100, volume = 5000000, price = 65000,
             next_funding = 1700006400000\<rparr>)]),
         run_binance = (\<lambda>_. [(''ETH/USDT:USDT'',
            \<lparr>symbol = ''ETH/USDT:USDT'', rate = - (2 / 100), volume = 3000000, price = 3000,
             next_funding = 1700006400000\<rparr>)]),
         run_bitget = (\<lambda>_. []),
         run_okx = (\<lambda>_. [(''SOL/USDT:USDT'',
            \<lparr>symbol = ''SOL/USDT:USDT'', rate = 3 / 100, volume = 1000000, price = 150,
             next_funding = 1700006400000\<rparr>)])\<rparr>"
        "[''bybit'', ''binance'', ''bitget'', ''okx'']" True "''okx''"]
  by simp

end
